theory Spec2Isabelle
  imports Complex_Main "HOL-Library.Log_Nat"
begin

section \<open>The tournament simulator (\<^verbatim>\<open>simulator.py\<close>)\<close>

text \<open>
  A shallow embedding of the class \<^verbatim>\<open>Simulator\<close>: its constructor (roster discovery),
  \<^verbatim>\<open>reset\<close>, \<^verbatim>\<open>run\<close> and \<^verbatim>\<open>autoplay\<close>. The game engine (\<^verbatim>\<open>World\<close>), the file
  system, the random source and the logging machinery are collaborators of the class; each
  is made explicit below.
\<close>

subsection \<open>Python values, errors\<close>

text \<open>Exceptions the modelled code can raise or let through.\<close>

datatype py_error =
    ValueError
  | ZeroDivisionError
  | IndexError
  | AttributeError
  | FileNotFoundError
  | NotADirectoryError
  | EngineError string

text \<open>
  The values \<^verbatim>\<open>args.board_roster_dir\<close> may hold: the flag is declared with
  \<^verbatim>\<open>type=int\<close> and a string default, and a caller may build the namespace by hand.
\<close>

datatype py_value = PyNone | PyInt int | PyStr string

fun truthy :: "py_value \<Rightarrow> bool" where
  "truthy PyNone = False"
| "truthy (PyInt n) = (n \<noteq> 0)"
| "truthy (PyStr s) = (s \<noteq> [])"

subsection \<open>The configuration\<close>

text \<open>
  The \<^verbatim>\<open>argparse.Namespace\<close> built by \<^verbatim>\<open>get_args\<close>. \<open>board_roster_dir = None\<close> stands
  for a namespace without that attribute (\<^verbatim>\<open>hasattr\<close> is false); \<open>autoplay_mode\<close> is the flag
  \<^verbatim>\<open>args.autoplay\<close>.
\<close>

record args =
  player_1 :: string
  player_2 :: string
  board_path :: "string option"
  board_roster_dir :: "py_value option"
  display :: bool
  display_delay :: rat
  display_save :: bool
  display_save_path :: string
  autoplay_mode :: bool
  autoplay_runs :: int

subsection \<open>The file system, as \<^verbatim>\<open>os.path.isdir\<close>, \<^verbatim>\<open>os.listdir\<close> and \<^verbatim>\<open>os.path.join\<close> see it\<close>

datatype fs_node = File | Dir "string list"

type_synonym filesystem = "string \<Rightarrow> fs_node option"

definition isdir :: "filesystem \<Rightarrow> string \<Rightarrow> bool" where
  "isdir fs p = (case fs p of Some (Dir names) \<Rightarrow> True | _ \<Rightarrow> False)"

definition listdir :: "filesystem \<Rightarrow> string \<Rightarrow> py_error + string list" where
  "listdir fs p =
     (case fs p of
        None \<Rightarrow> Inl FileNotFoundError
      | Some File \<Rightarrow> Inl NotADirectoryError
      | Some (Dir names) \<Rightarrow> Inr names)"

text \<open>\<^verbatim>\<open>str.startswith\<close> and \<^verbatim>\<open>str.endswith\<close>.\<close>

definition startswith :: "string \<Rightarrow> string \<Rightarrow> bool" where
  "startswith s pre = (take (length pre) s = pre)"

definition endswith :: "string \<Rightarrow> string \<Rightarrow> bool" where
  "endswith s suf = (length suf \<le> length s \<and> drop (length s - length suf) s = suf)"

text \<open>\<^verbatim>\<open>posixpath.join\<close> on two components.\<close>

definition path_join :: "string \<Rightarrow> string \<Rightarrow> string" where
  "path_join a b =
     (if startswith b ''/'' then b
      else if a = [] \<or> endswith a ''/'' then a @ b
      else a @ ''/'' @ b)"

subsection \<open>Process-wide state and the simulator object\<close>

text \<open>
  Log records that reach the handler. \<open>RunFinished\<close> carries the four values the line of
  \<^verbatim>\<open>run\<close> interpolates, \<open>WinPercentage\<close> the player number, the agent name, the win
  percentage and the rounded maximum turn time of a summary line.
\<close>

datatype log_msg =
    DisplayDisabled
  | RunFinished string int string int
  | WinPercentage nat string rat rat

definition DEBUG :: nat where "DEBUG = 10"
definition INFO :: nat where "INFO = 20"
definition WARNING :: nat where "WARNING = 30"
definition ERROR :: nat where "ERROR = 40"
definition CRITICAL :: nat where "CRITICAL = 50"

text \<open>The arguments of one call of the engine's constructor \<^verbatim>\<open>World(...)\<close>.\<close>

record world_args =
  w_player_1 :: string
  w_player_2 :: string
  w_board_fpath :: "string option"
  w_display_ui :: bool
  w_display_delay :: rat
  w_display_save :: bool
  w_display_save_path :: string
  w_autoplay :: bool

text \<open>
  The state outside the object: \<open>np_draws\<close> and \<open>np_pos\<close> are the random source (the raw
  value behind the \<open>k\<close>-th call of \<^verbatim>\<open>np.random.randint\<close> and the number of calls made),
  \<open>log_disable\<close> is \<^verbatim>\<open>logging.root.manager.disable\<close>, \<open>log_out\<close> the records emitted so
  far, and \<open>built\<close> the constructor calls made on the engine, in order.
\<close>

record proc =
  np_draws :: "nat \<Rightarrow> nat"
  np_pos :: nat
  log_disable :: nat
  log_out :: "(nat \<times> log_msg) list"
  built :: "world_args list"

text \<open>The object \<^verbatim>\<open>self\<close> on top of it: \<^verbatim>\<open>self.args\<close>, \<^verbatim>\<open>self.board_options\<close>, \<^verbatim>\<open>self.world\<close>.\<close>

record 'w state = proc +
  args :: args
  board_options :: "string list"
  world :: "'w option"

subsection \<open>\<^verbatim>\<open>Simulator.__init__\<close>\<close>

definition Simulator_init :: "filesystem \<Rightarrow> args \<Rightarrow> proc \<Rightarrow> py_error + 'w state" where
  "Simulator_init fs a p =
     (let mk = (\<lambda>opts. \<lparr>np_draws = np_draws p, np_pos = np_pos p, log_disable = log_disable p,
                        log_out = log_out p, built = built p,
                        args = a, board_options = opts, world = None\<rparr>)
      in case board_roster_dir a of
           Some roster_dir \<Rightarrow>
             if truthy roster_dir then
               (case roster_dir of
                  PyStr d \<Rightarrow>
                    if isdir fs d then
                      (case listdir fs d of
                         Inl e \<Rightarrow> Inl e
                       | Inr names \<Rightarrow>
                           Inr (mk (map (path_join d)
                                     (filter (\<lambda>fname. endswith fname ''.csv'' \<or> endswith fname ''.board'')
                                        names))))
                    else Inr (mk [])
                | _ \<Rightarrow> Inr (mk []))
             else Inr (mk [])
         | None \<Rightarrow> Inr (mk []))"

subsection \<open>Logging\<close>

text \<open>
  \<^verbatim>\<open>logging.basicConfig(level=logging.INFO)\<close> at import time sets the level of the root
  logger, which the module's logger inherits. A call \<^verbatim>\<open>logger.log(lvl, msg)\<close> emits the
  record when \<^verbatim>\<open>isEnabledFor(lvl)\<close> holds: the process-wide threshold
  \<^verbatim>\<open>manager.disable\<close> is below \<open>lvl\<close> and \<open>lvl\<close> reaches the effective level.
\<close>

definition effective_level :: nat where
  "effective_level = INFO"

definition isEnabledFor :: "nat \<Rightarrow> ('w, 'z) state_scheme \<Rightarrow> bool" where
  "isEnabledFor lvl st = (\<not> lvl \<le> log_disable st \<and> effective_level \<le> lvl)"

definition logger_log :: "nat \<Rightarrow> log_msg \<Rightarrow> 'w state \<Rightarrow> 'w state" where
  "logger_log lvl msg st =
     (if isEnabledFor lvl st then st\<lparr>log_out := log_out st @ [(lvl, msg)]\<rparr> else st)"

text \<open>
  Modelled from the spec: the context manager \<^verbatim>\<open>utils.all_logging_disabled\<close>, imported by
  \<^verbatim>\<open>simulator.py\<close> but defined in a module that is not part of the sources at hand. The
  spec describes a scoped suppression that is acquired before the loop and released on every
  exit path, failing or not, restoring the prior verbosity. The threshold it installs is the
  highest standard level, as its name says (all logging is disabled). A body that does not
  return never reaches the release.
\<close>

definition all_logging_disabled ::
  "('w state \<Rightarrow> ('r \<times> 'w state) option) \<Rightarrow> 'w state \<Rightarrow> ('r \<times> 'w state) option" where
  "all_logging_disabled body st =
     (let previous_level = log_disable st in
      case body (st\<lparr>log_disable := CRITICAL\<rparr>) of
        None \<Rightarrow> None
      | Some (r, st') \<Rightarrow> Some (r, st'\<lparr>log_disable := previous_level\<rparr>))"

subsection \<open>The random source and numpy's reductions\<close>

text \<open>
  \<^verbatim>\<open>np.random.randint(high)\<close>: a value in \<open>{0..<high}\<close>, \<^verbatim>\<open>ValueError\<close> when
  \<open>high \<le> 0\<close>. The raw draw is reduced modulo \<open>high\<close>, so every index below \<open>high\<close>
  can come out of every call.
\<close>

definition randint :: "nat \<Rightarrow> 'w state \<Rightarrow> (py_error + nat) \<times> 'w state" where
  "randint high st =
     (if high = 0 then (Inl ValueError, st)
      else (Inr (np_draws st (np_pos st) mod high), st\<lparr>np_pos := np_pos st + 1\<rparr>))"

text \<open>List indexing with a non-negative index.\<close>

definition getitem :: "'a list \<Rightarrow> nat \<Rightarrow> py_error + 'a" where
  "getitem xs i = (if i < length xs then Inr (xs ! i) else Inl IndexError)"

text \<open>\<^verbatim>\<open>np.max\<close> of a list: \<^verbatim>\<open>ValueError\<close> on the empty list.\<close>

definition np_max :: "rat list \<Rightarrow> py_error + rat" where
  "np_max xs = (case xs of [] \<Rightarrow> Inl ValueError | y # ys \<Rightarrow> Inr (fold max ys y))"

text \<open>
  Python floats and numpy's \<^verbatim>\<open>float64\<close> are IEEE binary64 numbers. A finite one is the
  rational number it denotes; an operation on floats is the exact operation followed by
  rounding to the nearest binary64 number, ties to the even significand.

  \<open>rint\<close> is \<^verbatim>\<open>np.rint\<close>: the nearest integer, ties to the even one. \<open>ilog2 y\<close> is
  \<open>\<lfloor>log\<^sub>2 y\<rfloor>\<close> for \<open>y > 0\<close>, from the bit lengths of numerator and denominator.
  \<open>float64\<close> rounds to 53 significant bits. It has no exponent range: it is the IEEE
  rounding for results that are zero or normal, that is, of magnitude from \<open>2\<^sup>-\<^sup>1\<^sup>0\<^sup>2\<^sup>2\<close> up to
  the overflow threshold.
\<close>

definition rint :: "rat \<Rightarrow> int" where
  "rint y =
     (let f = \<lfloor>y\<rfloor>; d = y - of_int f in
      if d < 1 / 2 then f
      else if 1 / 2 < d then f + 1
      else if even f then f else f + 1)"

definition ilog2 :: "rat \<Rightarrow> int" where
  "ilog2 y =
     (case quotient_of y of (p, q) \<Rightarrow>
        let d = bitlen p - bitlen q in if 2 powi d \<le> y then d else d - 1)"

definition float64 :: "rat \<Rightarrow> rat" where
  "float64 y =
     (if y = 0 then 0
      else let e = ilog2 \<bar>y\<bar> - 52; m = rint (\<bar>y\<bar> / 2 powi e)
           in sgn y * of_int m * 2 powi e)"

text \<open>
  The values the properties of the summary are stated for: zero and the normal binary64
  numbers below \<open>2\<^sup>1\<^sup>0\<^sup>0\<^sup>0\<close> in magnitude, so that scaling by \<open>10\<^sup>5\<close> cannot overflow. A
  product that falls below the normal range is rounded to the integer 0 by \<open>rint\<close> whatever
  its last bits are.
\<close>

definition is_float64 :: "rat \<Rightarrow> bool" where
  "is_float64 x \<longleftrightarrow>
     float64 x = x \<and> \<bar>x\<bar> < 2 ^ 1000 \<and> (x = 0 \<or> 1 \<le> \<bar>x\<bar> * 2 ^ 1022)"

text \<open>
  \<^verbatim>\<open>np.round(x, decimals)\<close> for a float \<open>x\<close> and \<open>decimals \<ge> 0\<close>: numpy multiplies by
  the float \<open>10 ^ decimals\<close>, applies \<^verbatim>\<open>rint\<close> and divides by the same float, each step in
  binary64. The power of ten is exact for the five decimals used here.
\<close>

definition np_round :: "rat \<Rightarrow> nat \<Rightarrow> rat" where
  "np_round x decimals =
     float64 (of_int (rint (float64 (x * 10 ^ decimals))) / 10 ^ decimals)"

text \<open>
  True division \<^verbatim>\<open>x / n\<close> of a win count by the integer run count: the quotient as a
  float.
\<close>

definition truediv :: "rat \<Rightarrow> int \<Rightarrow> py_error + rat" where
  "truediv x n = (if n = 0 then Inl ZeroDivisionError else Inr (float64 (x / of_int n)))"

subsection \<open>The engine\<close>

text \<open>
  The class \<^verbatim>\<open>World\<close> is a parameter: its constructor, its method \<^verbatim>\<open>step\<close>, which
  returns \<^verbatim>\<open>(is_end, p0_score, p1_score)\<close> and changes the world, and the two attributes
  \<^verbatim>\<open>p0_time\<close> and \<^verbatim>\<open>p1_time\<close>. Constructor and step may raise. Scores are integers
  (piece counts), durations are lists of numbers.
\<close>

record 'w engine =
  World :: "world_args \<Rightarrow> py_error + 'w"
  step :: "'w \<Rightarrow> (py_error + bool \<times> int \<times> int) \<times> 'w"
  p0_time :: "'w \<Rightarrow> rat list"
  p1_time :: "'w \<Rightarrow> rat list"

subsection \<open>\<^verbatim>\<open>Simulator.reset\<close>\<close>

definition reset ::
  "'w engine \<Rightarrow> bool \<Rightarrow> string option \<Rightarrow> 'w state \<Rightarrow> (py_error + unit) \<times> 'w state" where
  "reset E swap_players board_fpath st =
     (let board_fpath = (case board_fpath of None \<Rightarrow> board_path (args st) | Some b \<Rightarrow> Some b);
          (p1, p2) = (if swap_players then (player_2 (args st), player_1 (args st))
                      else (player_1 (args st), player_2 (args st)));
          wa = \<lparr>w_player_1 = p1, w_player_2 = p2, w_board_fpath = board_fpath,
                w_display_ui = display (args st),
                w_display_delay = display_delay (args st),
                w_display_save = display_save (args st),
                w_display_save_path = display_save_path (args st),
                w_autoplay = autoplay_mode (args st)\<rparr>;
          st1 = st\<lparr>built := built st @ [wa]\<rparr>
      in case World E wa of
           Inl e \<Rightarrow> (Inl e, st1)
         | Inr w \<Rightarrow> (Inr (), st1\<lparr>world := Some w\<rparr>))"

subsection \<open>\<^verbatim>\<open>Simulator.run\<close>\<close>

text \<open>
  The loop \<^verbatim>\<open>while not is_end\<close> has no bound of its own: the result \<open>None\<close> stands for a
  match that never ends.
\<close>

partial_function (option) step_loop ::
  "'w engine \<Rightarrow> bool \<Rightarrow> int \<Rightarrow> int \<Rightarrow> 'w \<Rightarrow> ((py_error + int \<times> int) \<times> 'w) option" where
  "step_loop E is_end p0_score p1_score w =
     (if is_end then Some (Inr (p0_score, p1_score), w)
      else (case step E w of
              (Inl e, w') \<Rightarrow> Some (Inl e, w')
            | (Inr (is_end', p0_score', p1_score'), w') \<Rightarrow>
                step_loop E is_end' p0_score' p1_score' w'))"

declare step_loop.simps [code]

definition run ::
  "'w engine \<Rightarrow> bool \<Rightarrow> string option \<Rightarrow> 'w state
     \<Rightarrow> ((py_error + int \<times> int \<times> rat list \<times> rat list) \<times> 'w state) option" where
  "run E swap_players board_fpath st =
     (case reset E swap_players board_fpath st of
        (Inl e, st1) \<Rightarrow> Some (Inl e, st1)
      | (Inr u, st1) \<Rightarrow>
          (case world st1 of
             None \<Rightarrow> Some (Inl AttributeError, st1)
           | Some w0 \<Rightarrow>
               (case step E w0 of
                  (Inl e, w1) \<Rightarrow> Some (Inl e, st1\<lparr>world := Some w1\<rparr>)
                | (Inr (is_end, p0_score, p1_score), w1) \<Rightarrow>
                    (case step_loop E is_end p0_score p1_score w1 of
                       None \<Rightarrow> None
                     | Some (Inl e, w2) \<Rightarrow> Some (Inl e, st1\<lparr>world := Some w2\<rparr>)
                     | Some (Inr (p0_score, p1_score), w2) \<Rightarrow>
                         (let st2 = logger_log INFO
                                      (RunFinished (player_1 (args st1)) p0_score
                                                   (player_2 (args st1)) p1_score)
                                      (st1\<lparr>world := Some w2\<rparr>)
                          in Some (Inr (p0_score, p1_score, p0_time E w2, p1_time E w2), st2))))))"

text \<open>The world after \<open>n\<close> calls of \<^verbatim>\<open>step\<close>, used to say when a match ends.\<close>

primrec world_after :: "'w engine \<Rightarrow> nat \<Rightarrow> 'w \<Rightarrow> 'w" where
  "world_after E 0 w = w"
| "world_after E (Suc n) w = world_after E n (snd (step E w))"

subsection \<open>\<^verbatim>\<open>Simulator.autoplay\<close>\<close>

text \<open>The local variables of \<^verbatim>\<open>autoplay\<close> that the loop accumulates into.\<close>

record tally =
  p1_win_count :: rat
  p2_win_count :: rat
  p1_times :: "rat list"
  p2_times :: "rat list"

text \<open>\<^verbatim>\<open>range(n)\<close>: empty for \<open>n \<le> 0\<close>.\<close>

definition py_range :: "int \<Rightarrow> nat list" where
  "py_range n = [0..<nat n]"

text \<open>Lines 118 to 124: the tuple assignment under \<^verbatim>\<open>if swap_players\<close>.\<close>

definition remap ::
  "bool \<Rightarrow> int \<times> int \<times> rat list \<times> rat list \<Rightarrow> int \<times> int \<times> rat list \<times> rat list" where
  "remap swap_players r =
     (case r of (p0_score, p1_score, p0_t, p1_t) \<Rightarrow>
        if swap_players then (p1_score, p0_score, p1_t, p0_t)
        else (p0_score, p1_score, p0_t, p1_t))"

text \<open>
  Lines 125 to 133: the win counts and the two \<^verbatim>\<open>extend\<close> calls. The counts are integers
  until the first tie and multiples of one half from then on; both are exact in binary
  floating point, and are modelled as rationals.
\<close>

definition aggregate :: "tally \<Rightarrow> int \<times> int \<times> rat list \<times> rat list \<Rightarrow> tally" where
  "aggregate t r =
     (case r of (p0_score, p1_score, p0_t, p1_t) \<Rightarrow>
        (let t1 = (if p0_score > p1_score then t\<lparr>p1_win_count := p1_win_count t + 1\<rparr>
                   else if p0_score < p1_score then t\<lparr>p2_win_count := p2_win_count t + 1\<rparr>
                   else t\<lparr>p1_win_count := p1_win_count t + 1 / 2,
                          p2_win_count := p2_win_count t + 1 / 2\<rparr>)
         in t1\<lparr>p1_times := p1_times t1 @ p0_t, p2_times := p2_times t1 @ p1_t\<rparr>))"

text \<open>
  One pass through the body of the \<^verbatim>\<open>for\<close> loop, lines 113 to 133. A failure carries
  the locals as they stand when the exception leaves the body.
\<close>

definition autoplay_iteration ::
  "'w engine \<Rightarrow> nat \<Rightarrow> tally \<Rightarrow> 'w state \<Rightarrow> ((py_error \<times> tally + tally) \<times> 'w state) option" where
  "autoplay_iteration E i t st =
     (let swap_players = (i mod 2 = 0) in
      case randint (length (board_options st)) st of
        (Inl e, st1) \<Rightarrow> Some (Inl (e, t), st1)
      | (Inr k, st1) \<Rightarrow>
          (case getitem (board_options st1) k of
             Inl e \<Rightarrow> Some (Inl (e, t), st1)
           | Inr board_fpath \<Rightarrow>
               (case run E swap_players (Some board_fpath) st1 of
                  None \<Rightarrow> None
                | Some (Inl e, st2) \<Rightarrow> Some (Inl (e, t), st2)
                | Some (Inr r, st2) \<Rightarrow> Some (Inr (aggregate t (remap swap_players r)), st2))))"

fun autoplay_loop ::
  "'w engine \<Rightarrow> nat list \<Rightarrow> tally \<Rightarrow> 'w state \<Rightarrow> ((py_error \<times> tally + tally) \<times> 'w state) option" where
  "autoplay_loop E [] t st = Some (Inr t, st)"
| "autoplay_loop E (i # is) t st =
     (case autoplay_iteration E i t st of
        None \<Rightarrow> None
      | Some (Inl e, st1) \<Rightarrow> Some (Inl e, st1)
      | Some (Inr t1, st1) \<Rightarrow> autoplay_loop E is t1 st1)"

text \<open>
  One summary line, lines 135 to 137 and 138 to 140: the f-string is evaluated first, the
  quotient before the maximum, and then handed to \<^verbatim>\<open>logger.info\<close>.
\<close>

definition summary_line ::
  "nat \<Rightarrow> string \<Rightarrow> rat \<Rightarrow> rat list \<Rightarrow> 'w state \<Rightarrow> (py_error + unit) \<times> 'w state" where
  "summary_line n agent win_count turn_times st =
     (case truediv win_count (autoplay_runs (args st)) of
        Inl e \<Rightarrow> (Inl e, st)
      | Inr pct \<Rightarrow>
          (case np_max turn_times of
             Inl e \<Rightarrow> (Inl e, st)
           | Inr m \<Rightarrow> (Inr (), logger_log INFO (WinPercentage n agent pct (np_round m 5)) st)))"

text \<open>
  Lines 104 to 133: the locals, the display switch and the \<^verbatim>\<open>with\<close> block around the
  loop. The result is what the block leaves behind: the locals after the last iteration, or
  the exception.
\<close>

definition autoplay_matches ::
  "'w engine \<Rightarrow> 'w state \<Rightarrow> ((py_error \<times> tally + tally) \<times> 'w state) option" where
  "autoplay_matches E st =
     (let t0 = \<lparr>p1_win_count = 0, p2_win_count = 0, p1_times = [], p2_times = []\<rparr>;
          st1 = (if display (args st) then logger_log WARNING DisplayDisabled st else st);
          st2 = st1\<lparr>args := (args st1)\<lparr>display := False\<rparr>\<rparr>
      in all_logging_disabled (autoplay_loop E (py_range (autoplay_runs (args st2))) t0) st2)"

definition autoplay :: "'w engine \<Rightarrow> 'w state \<Rightarrow> ((py_error + unit) \<times> 'w state) option" where
  "autoplay E st =
     (case autoplay_matches E st of
        None \<Rightarrow> None
      | Some (Inl (e, t), st3) \<Rightarrow> Some (Inl e, st3)
      | Some (Inr t, st3) \<Rightarrow>
          (case summary_line 1 (player_1 (args st3)) (p1_win_count t) (p1_times t) st3 of
             (Inl e, st4) \<Rightarrow> Some (Inl e, st4)
           | (Inr u, st4) \<Rightarrow>
               (case summary_line 2 (player_2 (args st4)) (p2_win_count t) (p2_times t) st4 of
                  (Inl e, st5) \<Rightarrow> Some (Inl e, st5)
                | (Inr u', st5) \<Rightarrow> Some (Inr (), st5))))"

subsection \<open>A small engine and configuration to run the definitions on\<close>

text \<open>
  The world is the number of turns left and the constructor's arguments. Agent \<open>a\<close> ends
  with 5 pieces and agent \<open>b\<close> with 3, whatever seat they take; the constructor refuses a
  missing board.
\<close>

definition demo_score :: "string \<Rightarrow> int" where
  "demo_score name = (if name = ''a'' then 5 else 3)"

definition demo_time :: "string \<Rightarrow> rat list" where
  "demo_time name = (if name = ''a'' then [1 / 10, 1 / 5, 1 / 20] else [1 / 1048576])"

definition demo_engine :: "(nat \<times> world_args) engine" where
  "demo_engine =
     \<lparr>World = (\<lambda>wa. case w_board_fpath wa of
                       None \<Rightarrow> Inl (EngineError ''no board'')
                     | Some b \<Rightarrow> Inr (2, wa)),
      step = (\<lambda>(n, wa). if n = 0
                         then (Inr (True, demo_score (w_player_1 wa), demo_score (w_player_2 wa)), (0, wa))
                         else (Inr (False, 0, 0), (n - 1, wa))),
      p0_time = (\<lambda>(n, wa). demo_time (w_player_1 wa)),
      p1_time = (\<lambda>(n, wa). demo_time (w_player_2 wa))\<rparr>"

text \<open>The same engine with a \<^verbatim>\<open>step\<close> that raises on the first call.\<close>

definition failing_engine :: "(nat \<times> world_args) engine" where
  "failing_engine = demo_engine\<lparr>step := (\<lambda>w. (Inl (EngineError ''boom''), w))\<rparr>"

text \<open>
  The same engine with turn times that are binary64 numbers: for agent \<open>a\<close> the floats
  written \<^verbatim>\<open>0.1\<close>, \<^verbatim>\<open>0.2\<close> and \<^verbatim>\<open>0.05\<close>, for agent \<open>b\<close> the float \<open>2\<^sup>-\<^sup>2\<^sup>0\<close>.
\<close>

definition float_time :: "string \<Rightarrow> rat list" where
  "float_time name =
     (if name = ''a''
      then [3602879701896397 / 36028797018963968, 3602879701896397 / 18014398509481984,
            3602879701896397 / 72057594037927936]
      else [1 / 1048576])"

definition float_engine :: "(nat \<times> world_args) engine" where
  "float_engine =
     demo_engine\<lparr>p0_time := (\<lambda>(n, wa). float_time (w_player_1 wa)),
                 p1_time := (\<lambda>(n, wa). float_time (w_player_2 wa))\<rparr>"

definition demo_args :: args where
  "demo_args =
     \<lparr>player_1 = ''a'', player_2 = ''b'', board_path = Some ''default.csv'',
      board_roster_dir = Some (PyStr ''boards/''), display = True, display_delay = 2 / 5,
      display_save = False, display_save_path = ''plots/'', autoplay_mode = True,
      autoplay_runs = 3\<rparr>"

definition demo_fs :: filesystem where
  "demo_fs p =
     (if p = ''boards/'' then Some (Dir [''a.csv'', ''b.board'', ''c.txt''])
      else if p = ''notes.txt'' then Some File
      else None)"

definition demo_proc :: proc where
  "demo_proc = \<lparr>np_draws = (\<lambda>k. k), np_pos = 0, log_disable = 0, log_out = [], built = []\<rparr>"

definition demo_state :: "(nat \<times> world_args) state" where
  "demo_state =
     \<lparr>np_draws = (\<lambda>k. k), np_pos = 0, log_disable = 0, log_out = [], built = [],
      args = demo_args, board_options = [''boards/a.csv'', ''boards/b.board''], world = None\<rparr>"

section \<open>Properties\<close>

subsection \<open>Roster discovery\<close>

lemma endswith_iff: "endswith s suf \<longleftrightarrow> (\<exists>stem. s = stem @ suf)"
proof
  assume "endswith s suf"
  then have "s = take (length s - length suf) s @ suf"
    by (metis append_take_drop_id endswith_def)
  then show "\<exists>stem. s = stem @ suf" ..
next
  assume "\<exists>stem. s = stem @ suf"
  then show "endswith s suf" by (auto simp: endswith_def)
qed

lemma isdir_iff: "isdir fs d \<longleftrightarrow> (\<exists>names. fs d = Some (Dir names))"
  by (auto simp: isdir_def split: option.splits fs_node.splits)

text \<open>
  C7. When \<^verbatim>\<open>args.board_roster_dir\<close> is a string \<open>d\<close>, the constructor raises nothing.
  If \<open>d\<close> names a directory, \<^verbatim>\<open>board_options\<close> holds, in listing order, the joined path of
  exactly those entries whose name ends in \<^verbatim>\<open>.csv\<close> or \<^verbatim>\<open>.board\<close>; if \<open>d\<close> does not
  exist or is a plain file, \<^verbatim>\<open>board_options\<close> is empty.
\<close>

theorem roster_discovery:
  assumes "board_roster_dir a = Some (PyStr d)"
  shows "\<exists>st :: 'w state. Simulator_init fs a p = Inr st \<and> args st = a \<and>
           (fs d = None \<or> fs d = Some File \<longrightarrow> board_options st = []) \<and>
           (\<forall>names. fs d = Some (Dir names) \<and> d \<noteq> [] \<longrightarrow>
              board_options st =
                map (path_join d)
                  (filter (\<lambda>fname. (\<exists>stem. fname = stem @ ''.csv'') \<or>
                                   (\<exists>stem. fname = stem @ ''.board'')) names))"
  using assms
  by (auto simp: Simulator_init_def isdir_def listdir_def endswith_iff
           split: option.splits fs_node.splits)

theorem roster_discovery_witness:
  "(\<exists>st :: (nat \<times> world_args) state.
      Simulator_init demo_fs demo_args demo_proc = Inr st \<and>
      board_options st = [''boards/a.csv'', ''boards/b.board'']) \<and>
   (\<exists>st :: (nat \<times> world_args) state.
      Simulator_init demo_fs (demo_args\<lparr>board_roster_dir := Some (PyStr ''missing/'')\<rparr>) demo_proc
        = Inr st \<and>
      board_options st = []) \<and>
   (\<exists>st :: (nat \<times> world_args) state.
      Simulator_init demo_fs (demo_args\<lparr>board_roster_dir := Some (PyStr ''notes.txt'')\<rparr>) demo_proc
        = Inr st \<and>
      board_options st = [])"
proof (intro conjI)
  show "\<exists>st :: (nat \<times> world_args) state.
      Simulator_init demo_fs demo_args demo_proc = Inr st \<and>
      board_options st = [''boards/a.csv'', ''boards/b.board'']"
    using roster_discovery [of demo_args "''boards/''" demo_fs demo_proc,
        where ?'w = "nat \<times> world_args"]
    by (simp add: demo_args_def demo_fs_def path_join_def startswith_def endswith_def
          endswith_iff [symmetric]) blast
  show "\<exists>st :: (nat \<times> world_args) state.
      Simulator_init demo_fs (demo_args\<lparr>board_roster_dir := Some (PyStr ''missing/'')\<rparr>) demo_proc
        = Inr st \<and>
      board_options st = []"
    using roster_discovery [of "demo_args\<lparr>board_roster_dir := Some (PyStr ''missing/'')\<rparr>"
        "''missing/''" demo_fs demo_proc, where ?'w = "nat \<times> world_args"]
    by (simp add: demo_fs_def) blast
  show "\<exists>st :: (nat \<times> world_args) state.
      Simulator_init demo_fs (demo_args\<lparr>board_roster_dir := Some (PyStr ''notes.txt'')\<rparr>) demo_proc
        = Inr st \<and>
      board_options st = []"
    using roster_discovery [of "demo_args\<lparr>board_roster_dir := Some (PyStr ''notes.txt'')\<rparr>"
        "''notes.txt''" demo_fs demo_proc, where ?'w = "nat \<times> world_args"]
    by (simp add: demo_fs_def) blast
qed

subsection \<open>Evaluating the small engine\<close>

lemma float64_zero [simp]: "float64 0 = 0"
  by (simp add: float64_def)

lemma float64_one: "float64 1 = 1"
  by code_simp

lemma float64_tenth: "float64 (1 / 10) = 3602879701896397 / 36028797018963968"
  by code_simp

lemma float64_fifth: "float64 (1 / 5) = 3602879701896397 / 18014398509481984"
  by code_simp

lemma float64_twentieth: "float64 (1 / 20) = 3602879701896397 / 72057594037927936"
  by code_simp

lemma np_round_small: "np_round (1 / 1048576) 5 = 0"
  by code_simp

lemma np_round_fifth: "np_round (1 / 5) 5 = 3602879701896397 / 18014398509481984"
  by code_simp

lemma np_round_float_fifth:
  "np_round (3602879701896397 / 18014398509481984) 5 = 3602879701896397 / 18014398509481984"
  by code_simp

text \<open>
  Two floats whose scaled value is a tie in binary64 although their decimal notation,
  \<^verbatim>\<open>2.5e-05\<close> and \<^verbatim>\<open>0.00038500000000000003\<close>, lies above it: the product with \<open>10\<^sup>5\<close>
  rounds to 2.5 and to 38.5, and \<^verbatim>\<open>rint\<close> takes the even neighbour.
\<close>

lemma np_round_ties:
  "float64 (25 / 1000000) = 7378697629483821 / 295147905179352825856"
  "np_round (7378697629483821 / 295147905179352825856) 5 = float64 (2 / 100000)"
  "np_round (7101996468378177 / 18446744073709551616) 5 = float64 (38 / 100000)"
  by code_simp+

lemma float64_fixed:
  "float64 (3602879701896397 / 36028797018963968) = 3602879701896397 / 36028797018963968"
  "float64 (3602879701896397 / 18014398509481984) = 3602879701896397 / 18014398509481984"
  "float64 (3602879701896397 / 72057594037927936) = 3602879701896397 / 72057594037927936"
  "float64 (1 / 1048576) = 1 / 1048576"
  by code_simp+

lemma is_float64_demo:
  "is_float64 (3602879701896397 / 36028797018963968)"
  "is_float64 (3602879701896397 / 18014398509481984)"
  "is_float64 (3602879701896397 / 72057594037927936)"
  "is_float64 (1 / 1048576)"
  unfolding is_float64_def float64_fixed by simp_all

lemmas demo_defs = demo_engine_def demo_state_def demo_args_def demo_score_def demo_time_def
  failing_engine_def float_engine_def float_time_def

lemmas eval_defs = autoplay_def autoplay_matches_def all_logging_disabled_def py_range_def
  autoplay_iteration_def run_def reset_def step_loop.simps randint_def getitem_def
  logger_log_def isEnabledFor_def effective_level_def INFO_def WARNING_def CRITICAL_def
  remap_def aggregate_def summary_line_def truediv_def np_max_def np_round_small np_round_fifth
  np_round_float_fifth float64_one Let_def upt_rec

lemma demo_autoplay_completes:
  "\<exists>st'. autoplay demo_engine demo_state = Some (Inr (), st')"
  by (simp add: demo_defs eval_defs)

subsection \<open>What the operations leave unchanged\<close>

lemma logger_log_frame [simp]:
  "args (logger_log lvl msg st) = args st"
  "board_options (logger_log lvl msg st) = board_options st"
  "world (logger_log lvl msg st) = world st"
  "np_draws (logger_log lvl msg st) = np_draws st"
  "np_pos (logger_log lvl msg st) = np_pos st"
  "log_disable (logger_log lvl msg st) = log_disable st"
  "built (logger_log lvl msg st) = built st"
  by (simp_all add: logger_log_def)

lemma logger_log_out:
  "log_out (logger_log lvl msg st) = log_out st @ (if isEnabledFor lvl st then [(lvl, msg)] else [])"
  by (simp add: logger_log_def)

lemma reset_frame:
  assumes "reset E sw b st = (r, st')"
  shows "args st' = args st" "board_options st' = board_options st"
        "np_draws st' = np_draws st" "np_pos st' = np_pos st"
        "log_disable st' = log_disable st" "log_out st' = log_out st"
  using assms
  by (auto simp: reset_def Let_def split: sum.splits if_splits)

lemma reset_built:
  assumes "reset E sw b st = (r, st')"
  shows "\<exists>wa. built st' = built st @ [wa] \<and>
           w_player_1 wa = (if sw then player_2 (args st) else player_1 (args st)) \<and>
           w_player_2 wa = (if sw then player_1 (args st) else player_2 (args st)) \<and>
           w_board_fpath wa = (case b of None \<Rightarrow> board_path (args st) | Some x \<Rightarrow> Some x) \<and>
           w_display_ui wa = display (args st) \<and>
           (case r of Inl e \<Rightarrow> World E wa = Inl e \<and> world st' = world st
                    | Inr u \<Rightarrow> \<exists>w. World E wa = Inr w \<and> world st' = Some w)"
proof (cases sw)
  case True
  with assms show ?thesis
    by (auto simp: reset_def Let_def split: sum.splits)
next
  case False
  with assms show ?thesis
    by (auto simp: reset_def Let_def split: sum.splits)
qed

lemma reset_world:
  assumes "reset E sw b st = (Inr u, st')"
  shows "\<exists>w. world st' = Some w"
  using reset_built [OF assms] by auto

lemma run_cases:
  assumes "run E sw b st = Some (r, st')"
  obtains (ctor) e where "reset E sw b st = (Inl e, st')" "r = Inl e"
  | (raised) u st1 e w where "reset E sw b st = (Inr u, st1)" "r = Inl e" "st' = st1\<lparr>world := w\<rparr>"
  | (finished) u st1 p0 p1 w where "reset E sw b st = (Inr u, st1)"
      "r = Inr (p0, p1, p0_time E w, p1_time E w)"
      "st' = logger_log INFO (RunFinished (player_1 (args st1)) p0 (player_2 (args st1)) p1)
               (st1\<lparr>world := Some w\<rparr>)"
  using assms unfolding run_def
  by (auto split: prod.splits sum.splits option.splits simp: Let_def dest: reset_world)

lemma run_frame:
  assumes "run E sw b st = Some (r, st')"
  shows "args st' = args st" "board_options st' = board_options st"
        "np_draws st' = np_draws st" "np_pos st' = np_pos st"
        "log_disable st' = log_disable st"
proof -
  have "args st' = args st \<and> board_options st' = board_options st \<and>
        np_draws st' = np_draws st \<and> np_pos st' = np_pos st \<and>
        log_disable st' = log_disable st"
    using assms
  proof (cases rule: run_cases)
    case (ctor e)
    from reset_frame [OF ctor(1)] show ?thesis by simp
  next
    case (raised u st1 e w)
    from reset_frame [OF raised(1)] raised(3) show ?thesis by simp
  next
    case (finished u st1 p0 p1 w)
    from reset_frame [OF finished(1)] finished(3) show ?thesis by simp
  qed
  then show "args st' = args st" "board_options st' = board_options st"
        "np_draws st' = np_draws st" "np_pos st' = np_pos st"
        "log_disable st' = log_disable st"
    by simp_all
qed

lemma run_built:
  assumes "run E sw b st = Some (r, st')"
  shows "\<exists>wa. built st' = built st @ [wa] \<and>
           w_player_1 wa = (if sw then player_2 (args st) else player_1 (args st)) \<and>
           w_player_2 wa = (if sw then player_1 (args st) else player_2 (args st)) \<and>
           w_board_fpath wa = (case b of None \<Rightarrow> board_path (args st) | Some x \<Rightarrow> Some x) \<and>
           w_display_ui wa = display (args st)"
proof -
  have "\<exists>q st1. reset E sw b st = (q, st1) \<and> built st' = built st1"
    using assms
  proof (cases rule: run_cases)
    case (ctor e)
    then show ?thesis by simp
  next
    case (raised u st1 e w)
    then show ?thesis by simp
  next
    case (finished u st1 p0 p1 w)
    then show ?thesis by simp
  qed
  then obtain q st1 where rs: "reset E sw b st = (q, st1)" and eq: "built st' = built st1"
    by blast
  from reset_built [OF rs] obtain wa where
    "built st1 = built st @ [wa]"
    "w_player_1 wa = (if sw then player_2 (args st) else player_1 (args st))"
    "w_player_2 wa = (if sw then player_1 (args st) else player_2 (args st))"
    "w_board_fpath wa = (case b of None \<Rightarrow> board_path (args st) | Some x \<Rightarrow> Some x)"
    "w_display_ui wa = display (args st)"
    by blast
  with eq show ?thesis by (intro exI [of _ wa]) simp
qed

lemma run_log_out:
  assumes "run E sw b st = Some (r, st')"
  shows "log_out st' =
           log_out st @
             (case r of
                Inl e \<Rightarrow> []
              | Inr (p0, p1, ts) \<Rightarrow>
                  if isEnabledFor INFO st
                  then [(INFO, RunFinished (player_1 (args st)) p0 (player_2 (args st)) p1)]
                  else [])"
  using assms
proof (cases rule: run_cases)
  case (ctor e)
  from reset_frame [OF ctor(1)] ctor(2) show ?thesis by simp
next
  case (raised u st1 e w)
  from reset_frame [OF raised(1)] raised(2,3) show ?thesis by simp
next
  case (finished u st1 p0 p1 w)
  from reset_frame [OF finished(1)] finished(2,3) show ?thesis
    by (simp add: logger_log_out isEnabledFor_def)
qed

lemma randint_nonempty:
  "0 < n \<Longrightarrow> randint n st = (Inr (np_draws st (np_pos st) mod n), st\<lparr>np_pos := np_pos st + 1\<rparr>)"
  by (simp add: randint_def)

lemma randint_in_range:
  assumes "randint n st = (Inr k, st')"
  shows "k < n"
  using assms by (auto simp: randint_def split: if_splits)

lemma randint_every_index:
  assumes "k < n"
  shows "fst (randint n (st\<lparr>np_draws := (\<lambda>_. k)\<rparr>)) = Inr k"
  using assms by (simp add: randint_def)

lemma autoplay_iteration_empty:
  "board_options st = [] \<Longrightarrow> autoplay_iteration E i t st = Some (Inl (ValueError, t), st)"
  by (simp add: autoplay_iteration_def randint_def)

lemma autoplay_iteration_nonempty:
  assumes "board_options st \<noteq> []"
  shows "autoplay_iteration E i t st =
           (case run E (i mod 2 = 0)
                   (Some (board_options st ! (np_draws st (np_pos st) mod length (board_options st))))
                   (st\<lparr>np_pos := np_pos st + 1\<rparr>) of
              None \<Rightarrow> None
            | Some (Inl e, st2) \<Rightarrow> Some (Inl (e, t), st2)
            | Some (Inr r, st2) \<Rightarrow> Some (Inr (aggregate t (remap (i mod 2 = 0) r)), st2))"
proof -
  from assms
  have "np_draws st (np_pos st) mod length (board_options st) < length (board_options st)"
    by simp
  with assms show ?thesis
    by (simp add: autoplay_iteration_def randint_def getitem_def Let_def)
qed

lemma autoplay_iteration_cases:
  assumes "autoplay_iteration E i t st = Some (r, st')"
  obtains (empty) "board_options st = []" "r = Inl (ValueError, t)" "st' = st"
  | (raised) e where "board_options st \<noteq> []" "r = Inl (e, t)"
      "run E (i mod 2 = 0)
         (Some (board_options st ! (np_draws st (np_pos st) mod length (board_options st))))
         (st\<lparr>np_pos := np_pos st + 1\<rparr>) = Some (Inl e, st')"
  | (played) res where "board_options st \<noteq> []"
      "r = Inr (aggregate t (remap (i mod 2 = 0) res))"
      "run E (i mod 2 = 0)
         (Some (board_options st ! (np_draws st (np_pos st) mod length (board_options st))))
         (st\<lparr>np_pos := np_pos st + 1\<rparr>) = Some (Inr res, st')"
proof (cases "board_options st = []")
  case True
  from assms have "r = Inl (ValueError, t)" "st' = st"
    by (simp_all add: autoplay_iteration_empty [OF True])
  with True show ?thesis by (rule empty)
next
  case False
  let ?run = "run E (i mod 2 = 0)
         (Some (board_options st ! (np_draws st (np_pos st) mod length (board_options st))))
         (st\<lparr>np_pos := np_pos st + 1\<rparr>)"
  have eq: "(case ?run of
              None \<Rightarrow> None
            | Some (Inl e, st2) \<Rightarrow> Some (Inl (e, t), st2)
            | Some (Inr r, st2) \<Rightarrow> Some (Inr (aggregate t (remap (i mod 2 = 0) r)), st2))
            = Some (r, st')"
    using assms autoplay_iteration_nonempty [OF False, of E i t] by simp
  show ?thesis
  proof (cases ?run)
    case None
    with eq show ?thesis by simp
  next
    case (Some a)
    obtain q st2 where a: "a = (q, st2)" by (cases a)
    show ?thesis
    proof (cases q)
      case (Inl e)
      with eq Some a have "r = Inl (e, t)" "st' = st2" by simp_all
      with False Some a Inl show ?thesis by (intro raised [of e]) simp_all
    next
      case (Inr res)
      with eq Some a have "r = Inr (aggregate t (remap (i mod 2 = 0) res))" "st' = st2"
        by simp_all
      with False Some a Inr show ?thesis by (intro played [of res]) simp_all
    qed
  qed
qed

lemma autoplay_iteration_frame:
  assumes "autoplay_iteration E i t st = Some (r, st')"
  shows "args st' = args st" "board_options st' = board_options st"
        "np_draws st' = np_draws st" "log_disable st' = log_disable st"
proof -
  have "args st' = args st \<and> board_options st' = board_options st \<and>
        np_draws st' = np_draws st \<and> log_disable st' = log_disable st"
    using assms
  proof (cases rule: autoplay_iteration_cases)
    case empty
    then show ?thesis by simp
  next
    case (raised e)
    from run_frame [OF raised(3)] show ?thesis by simp
  next
    case (played res)
    from run_frame [OF played(3)] show ?thesis by simp
  qed
  then show "args st' = args st" "board_options st' = board_options st"
        "np_draws st' = np_draws st" "log_disable st' = log_disable st"
    by simp_all
qed

lemma autoplay_loop_frame:
  assumes "autoplay_loop E is t st = Some (r, st')"
  shows "args st' = args st \<and> board_options st' = board_options st \<and>
         np_draws st' = np_draws st \<and> log_disable st' = log_disable st"
  using assms
proof (induction "is" arbitrary: t st)
  case Nil
  then show ?case by simp
next
  case (Cons i "is")
  from Cons.prems obtain r1 st1 where it: "autoplay_iteration E i t st = Some (r1, st1)"
    by (auto split: option.splits)
  show ?case
  proof (cases r1)
    case (Inl e)
    with Cons.prems it have "st' = st1" by simp
    with autoplay_iteration_frame [OF it] show ?thesis by simp
  next
    case (Inr t1)
    with Cons.prems it have "autoplay_loop E is t1 st1 = Some (r, st')" by simp
    from Cons.IH [OF this] autoplay_iteration_frame [OF it] show ?thesis by simp
  qed
qed


lemma aggregate_sum:
  "p1_win_count (aggregate t r) + p2_win_count (aggregate t r) =
     p1_win_count t + p2_win_count t + 1"
  by (cases r) (simp add: aggregate_def)

lemma autoplay_iteration_sum:
  assumes "autoplay_iteration E i t st = Some (Inr t', st')"
  shows "p1_win_count t' + p2_win_count t' = p1_win_count t + p2_win_count t + 1"
  using assms
  by (cases rule: autoplay_iteration_cases) (simp_all add: aggregate_sum)

lemma autoplay_loop_Cons_Inr:
  assumes "autoplay_loop E (i # is) t st = Some (Inr t', st')"
  obtains t1 st1 where "autoplay_iteration E i t st = Some (Inr t1, st1)"
    "autoplay_loop E is t1 st1 = Some (Inr t', st')"
  using assms
  by (auto split: option.splits sum.splits)

lemma autoplay_loop_sum:
  assumes "autoplay_loop E is t st = Some (Inr t', st')"
  shows "p1_win_count t' + p2_win_count t' =
           p1_win_count t + p2_win_count t + of_nat (length is)"
  using assms
proof (induction "is" arbitrary: t st)
  case Nil
  then show ?case by simp
next
  case (Cons i "is")
  from Cons.prems obtain t1 st1 where
    it: "autoplay_iteration E i t st = Some (Inr t1, st1)" and
    rest: "autoplay_loop E is t1 st1 = Some (Inr t', st')"
    by (rule autoplay_loop_Cons_Inr)
  from Cons.IH [OF rest] autoplay_iteration_sum [OF it] show ?case by simp
qed

lemma autoplay_iteration_quiet:
  assumes "autoplay_iteration E i t st = Some (r, st')" and "INFO \<le> log_disable st"
  shows "log_out st' = log_out st"
  using assms(1)
proof (cases rule: autoplay_iteration_cases)
  case empty
  then show ?thesis by simp
next
  case (raised e)
  from run_log_out [OF raised(3)] show ?thesis by simp
next
  case (played res)
  from run_log_out [OF played(3)] assms(2) show ?thesis
    by (cases res) (simp add: isEnabledFor_def)
qed

lemma autoplay_loop_quiet:
  assumes "autoplay_loop E is t st = Some (r, st')" and "INFO \<le> log_disable st"
  shows "log_out st' = log_out st"
  using assms
proof (induction "is" arbitrary: t st)
  case Nil
  then show ?case by simp
next
  case (Cons i "is")
  from Cons.prems(1) obtain r1 st1 where it: "autoplay_iteration E i t st = Some (r1, st1)"
    by (auto split: option.splits)
  note q = autoplay_iteration_quiet [OF it Cons.prems(2)]
  show ?case
  proof (cases r1)
    case (Inl e)
    with Cons.prems it have "st' = st1" by simp
    with q show ?thesis by simp
  next
    case (Inr t1)
    with Cons.prems it have rest: "autoplay_loop E is t1 st1 = Some (r, st')" by simp
    from autoplay_iteration_frame [OF it] Cons.prems(2) have "INFO \<le> log_disable st1" by simp
    from Cons.IH [OF rest this] q show ?thesis by simp
  qed
qed


lemma autoplay_iteration_played:
  assumes "autoplay_iteration E i t st = Some (Inr t', st')"
  obtains res where "board_options st \<noteq> []"
      "t' = aggregate t (remap (i mod 2 = 0) res)"
      "run E (i mod 2 = 0)
         (Some (board_options st ! (np_draws st (np_pos st) mod length (board_options st))))
         (st\<lparr>np_pos := np_pos st + 1\<rparr>) = Some (Inr res, st')"
  using assms
  by (cases rule: autoplay_iteration_cases) simp_all

lemma autoplay_iteration_built:
  assumes "autoplay_iteration E i t st = Some (Inr t', st')"
  shows "\<exists>wa. built st' = built st @ [wa] \<and> np_pos st' = np_pos st + 1 \<and>
           w_player_1 wa = (if i mod 2 = 0 then player_2 (args st) else player_1 (args st)) \<and>
           w_player_2 wa = (if i mod 2 = 0 then player_1 (args st) else player_2 (args st)) \<and>
           w_board_fpath wa =
             Some (board_options st ! (np_draws st (np_pos st) mod length (board_options st)))"
proof -
  from assms obtain res where
    run: "run E (i mod 2 = 0)
         (Some (board_options st ! (np_draws st (np_pos st) mod length (board_options st))))
         (st\<lparr>np_pos := np_pos st + 1\<rparr>) = Some (Inr res, st')"
    by (rule autoplay_iteration_played)
  from run_built [OF run] obtain wa where
    "built st' = built st @ [wa]"
    "w_player_1 wa = (if i mod 2 = 0 then player_2 (args st) else player_1 (args st))"
    "w_player_2 wa = (if i mod 2 = 0 then player_1 (args st) else player_2 (args st))"
    "w_board_fpath wa =
       Some (board_options st ! (np_draws st (np_pos st) mod length (board_options st)))"
    by auto
  moreover from run_frame(4) [OF run] have "np_pos st' = np_pos st + 1" by simp
  ultimately show ?thesis by blast
qed

lemma autoplay_loop_built:
  assumes "autoplay_loop E is t st = Some (Inr t', st')"
  shows "\<exists>ws. built st' = built st @ ws \<and> length ws = length is \<and>
           np_pos st' = np_pos st + length is \<and>
           (\<forall>j<length is.
              w_player_1 (ws ! j) =
                (if is ! j mod 2 = 0 then player_2 (args st) else player_1 (args st)) \<and>
              w_player_2 (ws ! j) =
                (if is ! j mod 2 = 0 then player_1 (args st) else player_2 (args st)) \<and>
              w_board_fpath (ws ! j) =
                Some (board_options st !
                        (np_draws st (np_pos st + j) mod length (board_options st))))"
  using assms
proof (induction "is" arbitrary: t st)
  case Nil
  then show ?case by simp
next
  case (Cons i "is")
  from Cons.prems obtain t1 st1 where
    it: "autoplay_iteration E i t st = Some (Inr t1, st1)" and
    rest: "autoplay_loop E is t1 st1 = Some (Inr t', st')"
    by (rule autoplay_loop_Cons_Inr)
  from autoplay_iteration_built [OF it] obtain wa where
    wa: "built st1 = built st @ [wa]" "np_pos st1 = np_pos st + 1"
      "w_player_1 wa = (if i mod 2 = 0 then player_2 (args st) else player_1 (args st))"
      "w_player_2 wa = (if i mod 2 = 0 then player_1 (args st) else player_2 (args st))"
      "w_board_fpath wa =
         Some (board_options st ! (np_draws st (np_pos st) mod length (board_options st)))"
    by blast
  note fr = autoplay_iteration_frame [OF it]
  from Cons.IH [OF rest] obtain ws where
    ws: "built st' = built st1 @ ws" "length ws = length is"
      "np_pos st' = np_pos st1 + length is"
      "\<forall>j<length is.
          w_player_1 (ws ! j) =
            (if is ! j mod 2 = 0 then player_2 (args st1) else player_1 (args st1)) \<and>
          w_player_2 (ws ! j) =
            (if is ! j mod 2 = 0 then player_1 (args st1) else player_2 (args st1)) \<and>
          w_board_fpath (ws ! j) =
            Some (board_options st1 !
                    (np_draws st1 (np_pos st1 + j) mod length (board_options st1)))"
    by blast
  have "\<forall>j<length (i # is).
          w_player_1 ((wa # ws) ! j) =
            (if (i # is) ! j mod 2 = 0 then player_2 (args st) else player_1 (args st)) \<and>
          w_player_2 ((wa # ws) ! j) =
            (if (i # is) ! j mod 2 = 0 then player_1 (args st) else player_2 (args st)) \<and>
          w_board_fpath ((wa # ws) ! j) =
            Some (board_options st !
                    (np_draws st (np_pos st + j) mod length (board_options st)))"
  proof (intro allI impI)
    fix j assume j: "j < length (i # is)"
    show "w_player_1 ((wa # ws) ! j) =
            (if (i # is) ! j mod 2 = 0 then player_2 (args st) else player_1 (args st)) \<and>
          w_player_2 ((wa # ws) ! j) =
            (if (i # is) ! j mod 2 = 0 then player_1 (args st) else player_2 (args st)) \<and>
          w_board_fpath ((wa # ws) ! j) =
            Some (board_options st !
                    (np_draws st (np_pos st + j) mod length (board_options st)))"
    proof (cases j)
      case 0
      with wa show ?thesis by simp
    next
      case (Suc k)
      with j have "k < length is" by simp
      with ws(4) fr wa(2) Suc show ?thesis by simp
    qed
  qed
  with wa(1,2) ws(1,2,3) show ?case
    by (intro exI [of _ "wa # ws"]) simp
qed

lemma all_logging_disabled_Some:
  assumes "all_logging_disabled body st = Some (r, st')"
  obtains st1 where "body (st\<lparr>log_disable := CRITICAL\<rparr>) = Some (r, st1)"
    "st' = st1\<lparr>log_disable := log_disable st\<rparr>"
  using assms
  by (auto simp: all_logging_disabled_def split: option.splits)


lemma CRITICAL_ge_INFO: "INFO \<le> CRITICAL"
  by (simp add: INFO_def CRITICAL_def)

lemma autoplay_matches_Some:
  assumes "autoplay_matches E st = Some (r, st')"
  obtains st0 st1 where
    "args st0 = (args st)\<lparr>display := False\<rparr>"
    "board_options st0 = board_options st"
    "np_draws st0 = np_draws st" "np_pos st0 = np_pos st"
    "built st0 = built st" "world st0 = world st"
    "log_disable st0 = CRITICAL"
    "log_out st0 = log_out st @
       (if display (args st) \<and> isEnabledFor WARNING st then [(WARNING, DisplayDisabled)] else [])"
    "autoplay_loop E (py_range (autoplay_runs (args st)))
       \<lparr>p1_win_count = 0, p2_win_count = 0, p1_times = [], p2_times = []\<rparr> st0 = Some (r, st1)"
    "st' = st1\<lparr>log_disable := log_disable st\<rparr>"
proof -
  let ?st1 = "if display (args st) then logger_log WARNING DisplayDisabled st else st"
  let ?st2 = "?st1\<lparr>args := (args ?st1)\<lparr>display := False\<rparr>\<rparr>"
  from assms have "all_logging_disabled
       (autoplay_loop E (py_range (autoplay_runs (args ?st2)))
          \<lparr>p1_win_count = 0, p2_win_count = 0, p1_times = [], p2_times = []\<rparr>) ?st2 = Some (r, st')"
    by (simp add: autoplay_matches_def Let_def)
  then obtain st1 where
    loop: "autoplay_loop E (py_range (autoplay_runs (args ?st2)))
          \<lparr>p1_win_count = 0, p2_win_count = 0, p1_times = [], p2_times = []\<rparr>
          (?st2\<lparr>log_disable := CRITICAL\<rparr>) = Some (r, st1)"
    and st': "st' = st1\<lparr>log_disable := log_disable ?st2\<rparr>"
    by (rule all_logging_disabled_Some)
  show ?thesis
  proof (rule that [of "?st2\<lparr>log_disable := CRITICAL\<rparr>" st1])
    show "autoplay_loop E (py_range (autoplay_runs (args st)))
       \<lparr>p1_win_count = 0, p2_win_count = 0, p1_times = [], p2_times = []\<rparr>
       (?st2\<lparr>log_disable := CRITICAL\<rparr>) = Some (r, st1)"
      using loop by (cases "display (args st)") simp_all
    show "st' = st1\<lparr>log_disable := log_disable st\<rparr>"
      using st' by (cases "display (args st)") simp_all
  qed (simp_all add: logger_log_out)
qed

lemma autoplay_matches_frame:
  assumes "autoplay_matches E st = Some (r, st')"
  shows "args st' = (args st)\<lparr>display := False\<rparr>"
    and "board_options st' = board_options st"
    and "np_draws st' = np_draws st"
    and "log_disable st' = log_disable st"
    and "log_out st' = log_out st @
       (if display (args st) \<and> isEnabledFor WARNING st then [(WARNING, DisplayDisabled)] else [])"
proof -
  from assms obtain st0 st1 where
    st0: "args st0 = (args st)\<lparr>display := False\<rparr>"
      "board_options st0 = board_options st"
      "np_draws st0 = np_draws st"
      "log_disable st0 = CRITICAL"
      "log_out st0 = log_out st @
         (if display (args st) \<and> isEnabledFor WARNING st then [(WARNING, DisplayDisabled)] else [])"
    and loop: "autoplay_loop E (py_range (autoplay_runs (args st)))
       \<lparr>p1_win_count = 0, p2_win_count = 0, p1_times = [], p2_times = []\<rparr> st0 = Some (r, st1)"
    and st': "st' = st1\<lparr>log_disable := log_disable st\<rparr>"
    by (rule autoplay_matches_Some)
  note fr = autoplay_loop_frame [OF loop]
  from st0(4) have "INFO \<le> log_disable st0" by (simp add: CRITICAL_ge_INFO)
  note q = autoplay_loop_quiet [OF loop this]
  from fr st0 st' show "args st' = (args st)\<lparr>display := False\<rparr>"
    "board_options st' = board_options st" "np_draws st' = np_draws st"
    "log_disable st' = log_disable st"
    by simp_all
  from q st0 st' show "log_out st' = log_out st @
       (if display (args st) \<and> isEnabledFor WARNING st then [(WARNING, DisplayDisabled)] else [])"
    by simp
qed

lemma length_py_range: "1 \<le> n \<Longrightarrow> of_nat (length (py_range n)) = (of_int n :: rat)"
  by (simp add: py_range_def)

lemma autoplay_matches_sum:
  assumes "autoplay_matches E st = Some (Inr t, st')" and "1 \<le> autoplay_runs (args st)"
  shows "p1_win_count t + p2_win_count t = of_int (autoplay_runs (args st))"
proof -
  from assms(1) obtain st0 st1 where
    loop: "autoplay_loop E (py_range (autoplay_runs (args st)))
       \<lparr>p1_win_count = 0, p2_win_count = 0, p1_times = [], p2_times = []\<rparr> st0 = Some (Inr t, st1)"
    by (rule autoplay_matches_Some)
  from autoplay_loop_sum [OF loop] length_py_range [OF assms(2)] show ?thesis by simp
qed

lemma autoplay_Inr:
  assumes "autoplay E st = Some (Inr u, st')"
  obtains t st1 where "autoplay_matches E st = Some (Inr t, st1)"
  using assms
  by (auto simp: autoplay_def split: option.splits sum.splits prod.splits)

subsection \<open>Win credits\<close>

text \<open>
  C1. If \<^verbatim>\<open>autoplay\<close> with \<open>N \<ge> 1\<close> runs completes without failure, the loop has ended
  with win counts that add up to \<open>N\<close>: every iteration adds one in total. The counts are
  multiples of one half, so the sum is exact in floating point as well.
\<close>

theorem credits_sum_to_runs:
  assumes "autoplay E st = Some (Inr (), st')" and "1 \<le> autoplay_runs (args st)"
  shows "\<exists>t st1. autoplay_matches E st = Some (Inr t, st1) \<and>
           p1_win_count t + p2_win_count t = of_int (autoplay_runs (args st))"
proof -
  from assms(1) obtain t st1 where m: "autoplay_matches E st = Some (Inr t, st1)"
    by (rule autoplay_Inr)
  from autoplay_matches_sum [OF m assms(2)] m show ?thesis by blast
qed

theorem credits_sum_to_runs_witness:
  "\<exists>t st1. autoplay_matches demo_engine demo_state = Some (Inr t, st1) \<and>
     p1_win_count t + p2_win_count t = 3"
proof -
  from demo_autoplay_completes obtain st' where
    a: "autoplay demo_engine demo_state = Some (Inr (), st')" ..
  have "1 \<le> autoplay_runs (args demo_state)"
    by (simp add: demo_state_def demo_args_def)
  from credits_sum_to_runs [OF a this] show ?thesis
    by (simp add: demo_state_def demo_args_def)
qed

subsection \<open>Aggregation of one match\<close>

text \<open>
  C4. For a match with scores \<open>a\<close> (agent 1) and \<open>b\<close> (agent 2), as they stand after the
  remapping: equal scores add exactly one half to both win counts; unequal scores add exactly
  one to the count of the agent with the higher score and leave the other count as it was.
\<close>

theorem aggregate_credit:
  "(a = b \<longrightarrow> p1_win_count (aggregate t (a, b, ta, tb)) = p1_win_count t + 1 / 2 \<and>
               p2_win_count (aggregate t (a, b, ta, tb)) = p2_win_count t + 1 / 2) \<and>
   (b < a \<longrightarrow> p1_win_count (aggregate t (a, b, ta, tb)) = p1_win_count t + 1 \<and>
               p2_win_count (aggregate t (a, b, ta, tb)) = p2_win_count t) \<and>
   (a < b \<longrightarrow> p1_win_count (aggregate t (a, b, ta, tb)) = p1_win_count t \<and>
               p2_win_count (aggregate t (a, b, ta, tb)) = p2_win_count t + 1)"
  by (simp add: aggregate_def)

theorem aggregate_credit_witness:
  "p1_win_count (aggregate \<lparr>p1_win_count = 1, p2_win_count = 0, p1_times = [], p2_times = []\<rparr>
                  (4, 4, [1 / 10], [1 / 5])) = 3 / 2 \<and>
   p2_win_count (aggregate \<lparr>p1_win_count = 1, p2_win_count = 0, p1_times = [], p2_times = []\<rparr>
                  (4, 4, [1 / 10], [1 / 5])) = 1 / 2 \<and>
   p1_win_count (aggregate \<lparr>p1_win_count = 1, p2_win_count = 0, p1_times = [], p2_times = []\<rparr>
                  (5, 3, [1 / 10], [1 / 5])) = 2 \<and>
   p2_win_count (aggregate \<lparr>p1_win_count = 1, p2_win_count = 0, p1_times = [], p2_times = []\<rparr>
                  (5, 3, [1 / 10], [1 / 5])) = 0 \<and>
   p1_win_count (aggregate \<lparr>p1_win_count = 1, p2_win_count = 0, p1_times = [], p2_times = []\<rparr>
                  (3, 5, [1 / 10], [1 / 5])) = 1 \<and>
   p2_win_count (aggregate \<lparr>p1_win_count = 1, p2_win_count = 0, p1_times = [], p2_times = []\<rparr>
                  (3, 5, [1 / 10], [1 / 5])) = 1"
  using
    aggregate_credit [of 4 4 "\<lparr>p1_win_count = 1, p2_win_count = 0, p1_times = [], p2_times = []\<rparr>"
      "[1 / 10]" "[1 / 5]"]
    aggregate_credit [of 5 3 "\<lparr>p1_win_count = 1, p2_win_count = 0, p1_times = [], p2_times = []\<rparr>"
      "[1 / 10]" "[1 / 5]"]
    aggregate_credit [of 3 5 "\<lparr>p1_win_count = 1, p2_win_count = 0, p1_times = [], p2_times = []\<rparr>"
      "[1 / 10]" "[1 / 5]"]
  by simp

subsection \<open>Seat swap\<close>

text \<open>
  C2. In an iteration that completes, the engine was built with the configured agents swapped
  exactly when the iteration index is even, and in that case the scores and timing sequences
  returned by \<^verbatim>\<open>run\<close> are exchanged before they are aggregated: the first win count and
  the first timing list receive the results of seat 2, where \<^verbatim>\<open>args.player_1\<close> sat. In
  an odd iteration nothing is exchanged and \<^verbatim>\<open>args.player_1\<close> sat in seat 1.
\<close>

theorem swap_restores_logical_agents:
  assumes "autoplay_iteration E i t st = Some (Inr t', st')"
  shows "\<exists>p0_score p1_score p0_t p1_t board wa.
           run E (i mod 2 = 0) (Some board) (st\<lparr>np_pos := np_pos st + 1\<rparr>)
             = Some (Inr (p0_score, p1_score, p0_t, p1_t), st') \<and>
           built st' = built st @ [wa] \<and>
           (i mod 2 = 0 \<longrightarrow>
              w_player_1 wa = player_2 (args st) \<and> w_player_2 wa = player_1 (args st) \<and>
              t' = aggregate t (p1_score, p0_score, p1_t, p0_t) \<and>
              p1_times t' = p1_times t @ p1_t \<and> p2_times t' = p2_times t @ p0_t) \<and>
           (i mod 2 \<noteq> 0 \<longrightarrow>
              w_player_1 wa = player_1 (args st) \<and> w_player_2 wa = player_2 (args st) \<and>
              t' = aggregate t (p0_score, p1_score, p0_t, p1_t) \<and>
              p1_times t' = p1_times t @ p0_t \<and> p2_times t' = p2_times t @ p1_t)"
proof -
  let ?b = "board_options st ! (np_draws st (np_pos st) mod length (board_options st))"
  from assms obtain res where
    t': "t' = aggregate t (remap (i mod 2 = 0) res)" and
    run: "run E (i mod 2 = 0) (Some ?b) (st\<lparr>np_pos := np_pos st + 1\<rparr>) = Some (Inr res, st')"
    by (rule autoplay_iteration_played)
  obtain p0_score p1_score p0_t p1_t where res: "res = (p0_score, p1_score, p0_t, p1_t)"
    by (cases res)
  from run_built [OF run] obtain wa where
    wa: "built st' = built st @ [wa]"
      "w_player_1 wa = (if i mod 2 = 0 then player_2 (args st) else player_1 (args st))"
      "w_player_2 wa = (if i mod 2 = 0 then player_1 (args st) else player_2 (args st))"
    by auto
  have sw: "i mod 2 = 0 \<longrightarrow>
              w_player_1 wa = player_2 (args st) \<and> w_player_2 wa = player_1 (args st) \<and>
              t' = aggregate t (p1_score, p0_score, p1_t, p0_t) \<and>
              p1_times t' = p1_times t @ p1_t \<and> p2_times t' = p2_times t @ p0_t"
    using wa t' res by (simp add: remap_def aggregate_def Let_def)
  have nsw: "i mod 2 \<noteq> 0 \<longrightarrow>
              w_player_1 wa = player_1 (args st) \<and> w_player_2 wa = player_2 (args st) \<and>
              t' = aggregate t (p0_score, p1_score, p0_t, p1_t) \<and>
              p1_times t' = p1_times t @ p0_t \<and> p2_times t' = p2_times t @ p1_t"
    using wa t' res by (simp add: remap_def aggregate_def Let_def)
  from run res have run': "run E (i mod 2 = 0) (Some ?b) (st\<lparr>np_pos := np_pos st + 1\<rparr>)
      = Some (Inr (p0_score, p1_score, p0_t, p1_t), st')"
    by simp
  show ?thesis
    by (rule exI [of _ p0_score], rule exI [of _ p1_score], rule exI [of _ p0_t],
        rule exI [of _ p1_t], rule exI [of _ ?b], rule exI [of _ wa])
       (intro conjI run' wa(1) sw nsw)
qed


subsection \<open>Auxiliary facts on the summary and the loop\<close>

lemma np_max_nonempty:
  assumes "ts \<noteq> []"
  shows "np_max ts = Inr (Max (set ts))"
proof (cases ts)
  case Nil
  with assms show ?thesis by simp
next
  case (Cons y ys)
  with Max.set_eq_fold [of y ys] show ?thesis by (simp add: np_max_def)
qed

lemma summary_line_ok:
  assumes "autoplay_runs (args st) \<noteq> 0" and "ts \<noteq> []"
  shows "summary_line n a c ts st =
           (Inr (), logger_log INFO
                      (WinPercentage n a (float64 (c / of_int (autoplay_runs (args st))))
                         (np_round (Max (set ts)) 5)) st)"
  using assms by (simp add: summary_line_def truediv_def np_max_nonempty)

lemma summary_line_fails:
  "autoplay_runs (args st) = 0 \<Longrightarrow> summary_line n a c ts st = (Inl ZeroDivisionError, st)"
  "autoplay_runs (args st) \<noteq> 0 \<Longrightarrow> summary_line n a c [] st = (Inl ValueError, st)"
  by (simp_all add: summary_line_def truediv_def np_max_def)

lemma summary_line_frame:
  assumes "summary_line n a c ts st = (r, st')"
  shows "args st' = args st" "board_options st' = board_options st" "world st' = world st"
    "np_draws st' = np_draws st" "np_pos st' = np_pos st" "log_disable st' = log_disable st"
    "built st' = built st"
    "log_out st' = log_out st \<or> (\<exists>pct m. log_out st' = log_out st @ [(INFO, WinPercentage n a pct m)])"
  using assms
  by (auto simp: summary_line_def logger_log_out split: sum.splits)

lemma autoplay_cases:
  assumes "autoplay E st = Some (r, st')"
  obtains (loop_failed) e t where "autoplay_matches E st = Some (Inl (e, t), st')" "r = Inl e"
  | (first_failed) t st3 e where "autoplay_matches E st = Some (Inr t, st3)"
      "summary_line 1 (player_1 (args st3)) (p1_win_count t) (p1_times t) st3 = (Inl e, st')"
      "r = Inl e"
  | (second_failed) t st3 st4 e where "autoplay_matches E st = Some (Inr t, st3)"
      "summary_line 1 (player_1 (args st3)) (p1_win_count t) (p1_times t) st3 = (Inr (), st4)"
      "summary_line 2 (player_2 (args st4)) (p2_win_count t) (p2_times t) st4 = (Inl e, st')"
      "r = Inl e"
  | (completed) t st3 st4 where "autoplay_matches E st = Some (Inr t, st3)"
      "summary_line 1 (player_1 (args st3)) (p1_win_count t) (p1_times t) st3 = (Inr (), st4)"
      "summary_line 2 (player_2 (args st4)) (p2_win_count t) (p2_times t) st4 = (Inr (), st')"
      "r = Inr ()"
proof (cases "autoplay_matches E st")
  case None
  with assms show ?thesis by (simp add: autoplay_def)
next
  case (Some a)
  obtain q st3 where a: "a = (q, st3)" by (cases a)
  show ?thesis
  proof (cases q)
    case (Inl et)
    obtain e t where et: "et = (e, t)" by (cases et)
    from assms Some a Inl et have "r = Inl e" "st' = st3" by (simp_all add: autoplay_def)
    with Some a Inl et show ?thesis by (intro loop_failed [of e t]) simp_all
  next
    case (Inr t)
    let ?s1 = "summary_line 1 (player_1 (args st3)) (p1_win_count t) (p1_times t) st3"
    obtain q1 st4 where s1: "?s1 = (q1, st4)" by (cases ?s1)
    show ?thesis
    proof (cases q1)
      case (Inl e)
      from assms Some a Inr s1 Inl have "r = Inl e" "st' = st4" by (simp_all add: autoplay_def)
      with Some a Inr s1 Inl show ?thesis by (intro first_failed [of t st3 e]) simp_all
    next
      case u: (Inr u)
      let ?s2 = "summary_line 2 (player_2 (args st4)) (p2_win_count t) (p2_times t) st4"
      obtain q2 st5 where s2: "?s2 = (q2, st5)" by (cases ?s2)
      show ?thesis
      proof (cases q2)
        case (Inl e)
        from assms Some a Inr s1 u s2 Inl have "r = Inl e" "st' = st5"
          by (simp_all add: autoplay_def)
        with Some a Inr s1 u s2 Inl show ?thesis
          by (intro second_failed [of t st3 st4 e]) simp_all
      next
        case u': (Inr u')
        from assms Some a Inr s1 u s2 u' have "r = Inr ()" "st' = st5"
          by (simp_all add: autoplay_def)
        with Some a Inr s1 u s2 u' show ?thesis
          by (intro completed [of t st3 st4]) simp_all
      qed
    qed
  qed
qed

lemma autoplay_loop_nonempty_roster:
  assumes "autoplay_loop E (i # is) t st = Some (Inr t', st')"
  shows "board_options st \<noteq> []"
proof -
  from assms obtain t1 st1 where "autoplay_iteration E i t st = Some (Inr t1, st1)"
    by (rule autoplay_loop_Cons_Inr)
  then show ?thesis by (rule autoplay_iteration_played)
qed

lemma autoplay_matches_built:
  assumes "autoplay_matches E st = Some (Inr t, st')"
  shows "\<exists>ws. built st' = built st @ ws \<and> length ws = nat (autoplay_runs (args st)) \<and>
           np_pos st' = np_pos st + nat (autoplay_runs (args st)) \<and>
           (\<forall>i<nat (autoplay_runs (args st)).
              board_options st \<noteq> [] \<and>
              w_player_1 (ws ! i) =
                (if i mod 2 = 0 then player_2 (args st) else player_1 (args st)) \<and>
              w_player_2 (ws ! i) =
                (if i mod 2 = 0 then player_1 (args st) else player_2 (args st)) \<and>
              w_board_fpath (ws ! i) =
                Some (board_options st !
                        (np_draws st (np_pos st + i) mod length (board_options st))))"
proof -
  let ?n = "nat (autoplay_runs (args st))"
  from assms obtain st0 st1 where
    st0: "args st0 = (args st)\<lparr>display := False\<rparr>"
      "board_options st0 = board_options st"
      "np_draws st0 = np_draws st" "np_pos st0 = np_pos st"
      "built st0 = built st"
    and loop: "autoplay_loop E (py_range (autoplay_runs (args st)))
       \<lparr>p1_win_count = 0, p2_win_count = 0, p1_times = [], p2_times = []\<rparr> st0 = Some (Inr t, st1)"
    and st': "st' = st1\<lparr>log_disable := log_disable st\<rparr>"
    by (rule autoplay_matches_Some)
  from autoplay_loop_built [OF loop] obtain ws where
    ws: "built st1 = built st0 @ ws" "length ws = ?n" "np_pos st1 = np_pos st0 + ?n"
      "\<forall>j<?n.
          w_player_1 (ws ! j) =
            (if [0..<?n] ! j mod 2 = 0 then player_2 (args st0) else player_1 (args st0)) \<and>
          w_player_2 (ws ! j) =
            (if [0..<?n] ! j mod 2 = 0 then player_1 (args st0) else player_2 (args st0)) \<and>
          w_board_fpath (ws ! j) =
            Some (board_options st0 !
                    (np_draws st0 (np_pos st0 + j) mod length (board_options st0)))"
    by (auto simp: py_range_def)
  have ne: "board_options st \<noteq> []" if "0 < ?n"
  proof -
    from that have "py_range (autoplay_runs (args st)) = 0 # [Suc 0..<?n]"
      by (simp add: py_range_def upt_rec)
    with loop autoplay_loop_nonempty_roster [of E 0 "[Suc 0..<?n]" _ st0 t st1] st0(2)
    show ?thesis by simp
  qed
  have "\<forall>i<?n.
          board_options st \<noteq> [] \<and>
          w_player_1 (ws ! i) =
            (if i mod 2 = 0 then player_2 (args st) else player_1 (args st)) \<and>
          w_player_2 (ws ! i) =
            (if i mod 2 = 0 then player_1 (args st) else player_2 (args st)) \<and>
          w_board_fpath (ws ! i) =
            Some (board_options st !
                    (np_draws st (np_pos st + i) mod length (board_options st)))"
  proof (intro allI impI)
    fix i assume i: "i < ?n"
    then have "0 < ?n" by simp
    from ws(4) i st0 ne [OF \<open>0 < ?n\<close>]
    show "board_options st \<noteq> [] \<and>
          w_player_1 (ws ! i) =
            (if i mod 2 = 0 then player_2 (args st) else player_1 (args st)) \<and>
          w_player_2 (ws ! i) =
            (if i mod 2 = 0 then player_1 (args st) else player_2 (args st)) \<and>
          w_board_fpath (ws ! i) =
            Some (board_options st !
                    (np_draws st (np_pos st + i) mod length (board_options st)))"
      by simp
  qed
  with ws(1,2,3) st0 st' show ?thesis
    by (intro exI [of _ ws]) simp
qed


subsection \<open>A single match\<close>

lemma step_loop_terminal:
  assumes "fst (step E (world_after E n w)) = Inr (True, s0, s1)"
    and "\<forall>k<n. \<exists>a c. fst (step E (world_after E k w)) = Inr (False, a, c)"
  shows "step_loop E False a0 c0 w = Some (Inr (s0, s1), world_after E (Suc n) w)"
  using assms
proof (induction n arbitrary: w a0 c0)
  case 0
  then obtain w' where "step E w = (Inr (True, s0, s1), w')"
    by (cases "step E w") simp
  then show ?case
    by (simp add: step_loop.simps [of E False] step_loop.simps [of E True])
next
  case (Suc n)
  from Suc.prems(2) have "\<exists>a c. fst (step E (world_after E 0 w)) = Inr (False, a, c)"
    by blast
  then obtain a c w' where st: "step E w = (Inr (False, a, c), w')"
    by (cases "step E w") auto
  from Suc.prems(1) st have 1: "fst (step E (world_after E n w')) = Inr (True, s0, s1)"
    by simp
  have 2: "\<forall>k<n. \<exists>a c. fst (step E (world_after E k w')) = Inr (False, a, c)"
  proof (intro allI impI)
    fix k assume "k < n"
    then have "Suc k < Suc n" by simp
    with Suc.prems(2) have "\<exists>a c. fst (step E (world_after E (Suc k) w)) = Inr (False, a, c)"
      by blast
    with st show "\<exists>a c. fst (step E (world_after E k w')) = Inr (False, a, c)" by simp
  qed
  from Suc.IH [OF 1 2, of a c] st show ?case
    by (simp add: step_loop.simps [of E False a0 c0 w])
qed

text \<open>
  C9. Let the engine be built from the configuration (agents swapped on request, the given
  board or else \<^verbatim>\<open>args.board_path\<close>), and let its step number \<open>n\<close>, counted from zero, be
  the first to report a terminal state, every earlier step returning normally. Then \<^verbatim>\<open>run\<close>
  returns: it has called \<^verbatim>\<open>step\<close> exactly \<open>n + 1\<close> times, and its result is the two scores
  of that terminal step with the two timing sequences of the engine as they are then.
\<close>

theorem run_until_terminal:
  assumes wa: "wa = \<lparr>w_player_1 = (if sw then player_2 (args st) else player_1 (args st)),
                     w_player_2 = (if sw then player_1 (args st) else player_2 (args st)),
                     w_board_fpath = (case b of None \<Rightarrow> board_path (args st) | Some x \<Rightarrow> Some x),
                     w_display_ui = display (args st),
                     w_display_delay = display_delay (args st),
                     w_display_save = display_save (args st),
                     w_display_save_path = display_save_path (args st),
                     w_autoplay = autoplay_mode (args st)\<rparr>"
    and ctor: "World E wa = Inr w0"
    and fin: "fst (step E (world_after E n w0)) = Inr (True, s0, s1)"
    and before: "\<forall>k<n. \<exists>a c. fst (step E (world_after E k w0)) = Inr (False, a, c)"
  shows "run E sw b st =
           Some (Inr (s0, s1, p0_time E (world_after E (Suc n) w0),
                      p1_time E (world_after E (Suc n) w0)),
                 logger_log INFO (RunFinished (player_1 (args st)) s0 (player_2 (args st)) s1)
                   (st\<lparr>built := built st @ [wa], world := Some (world_after E (Suc n) w0)\<rparr>))"
proof -
  have rs: "reset E sw b st = (Inr (), st\<lparr>built := built st @ [wa], world := Some w0\<rparr>)"
    using wa ctor by (cases sw) (simp_all add: reset_def Let_def)
  have "\<exists>ie a c w1. step E w0 = (Inr (ie, a, c), w1) \<and>
          step_loop E ie a c w1 = Some (Inr (s0, s1), world_after E (Suc n) w0)"
  proof (cases n)
    case 0
    with fin obtain w1 where st: "step E w0 = (Inr (True, s0, s1), w1)"
      by (cases "step E w0") simp
    have "step_loop E True s0 s1 w1 = Some (Inr (s0, s1), w1)"
      by (simp add: step_loop.simps [of E True])
    with st 0 show ?thesis
      by (intro exI [of _ True] exI [of _ s0] exI [of _ s1] exI [of _ w1]) simp
  next
    case (Suc m)
    with before have "\<exists>a c. fst (step E (world_after E 0 w0)) = Inr (False, a, c)" by blast
    then obtain a c w1 where st: "step E w0 = (Inr (False, a, c), w1)"
      by (cases "step E w0") auto
    from fin Suc st have 1: "fst (step E (world_after E m w1)) = Inr (True, s0, s1)"
      by simp
    have 2: "\<forall>k<m. \<exists>a c. fst (step E (world_after E k w1)) = Inr (False, a, c)"
    proof (intro allI impI)
      fix k assume "k < m"
      with Suc have "Suc k < n" by simp
      with before have "\<exists>a c. fst (step E (world_after E (Suc k) w0)) = Inr (False, a, c)"
        by blast
      with st show "\<exists>a c. fst (step E (world_after E k w1)) = Inr (False, a, c)"
        by simp
    qed
    from step_loop_terminal [OF 1 2, of a c] st Suc show ?thesis
      by (intro exI [of _ False] exI [of _ a] exI [of _ c] exI [of _ w1]) simp
  qed
  then obtain ie a c w1 where
    first: "step E w0 = (Inr (ie, a, c), w1)" and
    loop: "step_loop E ie a c w1 = Some (Inr (s0, s1), world_after E (Suc n) w0)"
    by blast
  show ?thesis
    unfolding run_def rs using first loop
    by (simp add: Let_def split: prod.splits)
qed


theorem run_until_terminal_witness:
  "map_option fst (run demo_engine False None demo_state)
     = Some (Inr (5, 3, [1 / 10, 1 / 5, 1 / 20], [1 / 1048576])) \<and>
   map_option (map w_board_fpath \<circ> built \<circ> snd) (run demo_engine False None demo_state)
     = Some [Some ''default.csv'']"
proof -
  let ?wa = "\<lparr>w_player_1 = ''a'', w_player_2 = ''b'', w_board_fpath = Some ''default.csv'',
              w_display_ui = True, w_display_delay = 2 / 5, w_display_save = False,
              w_display_save_path = ''plots/'', w_autoplay = True\<rparr>"
  have 1: "?wa = \<lparr>w_player_1 = (if False then player_2 (args demo_state) else player_1 (args demo_state)),
                     w_player_2 = (if False then player_1 (args demo_state) else player_2 (args demo_state)),
                     w_board_fpath = (case None of None \<Rightarrow> board_path (args demo_state) | Some x \<Rightarrow> Some x),
                     w_display_ui = display (args demo_state),
                     w_display_delay = display_delay (args demo_state),
                     w_display_save = display_save (args demo_state),
                     w_display_save_path = display_save_path (args demo_state),
                     w_autoplay = autoplay_mode (args demo_state)\<rparr>"
    by (simp add: demo_state_def demo_args_def)
  have 2: "World demo_engine ?wa = Inr (2, ?wa)"
    by (simp add: demo_engine_def)
  have 3: "fst (step demo_engine (world_after demo_engine 2 (2, ?wa))) = Inr (True, 5, 3)"
    by (simp add: demo_engine_def demo_score_def eval_nat_numeral)
  have 4: "\<forall>k<2. \<exists>a c. fst (step demo_engine (world_after demo_engine k (2, ?wa))) = Inr (False, a, c)"
    by (simp add: demo_engine_def eval_nat_numeral less_Suc_eq)
  from run_until_terminal [OF 1 2 3 4] show ?thesis
    by (simp add: demo_engine_def demo_time_def demo_state_def eval_nat_numeral)
qed

subsection \<open>The iterations of \<^verbatim>\<open>autoplay\<close>\<close>

text \<open>
  C3. When the loop of \<^verbatim>\<open>autoplay\<close> runs to its end, it has built the engine exactly
  \<^verbatim>\<open>autoplay_runs\<close> times, once per iteration \<open>i = 0, 1, \<dots>\<close>; in iteration \<open>i\<close> the agents
  are swapped exactly when \<open>i mod 2 = 0\<close>, and the board is the roster entry at the index that
  the \<open>i\<close>-th call of \<^verbatim>\<open>np.random.randint(len(self.board_options))\<close> returned. The roster
  is never changed, so each draw is over the whole roster. That the draw is uniform is the
  contract of \<^verbatim>\<open>randint\<close>, outside this model.
\<close>

theorem autoplay_iterations:
  assumes "autoplay_matches E st = Some (Inr t, st')"
  shows "\<exists>ws. built st' = built st @ ws \<and> length ws = nat (autoplay_runs (args st)) \<and>
           np_pos st' = np_pos st + nat (autoplay_runs (args st)) \<and>
           (\<forall>i<nat (autoplay_runs (args st)).
              w_player_1 (ws ! i) =
                (if i mod 2 = 0 then player_2 (args st) else player_1 (args st)) \<and>
              w_player_2 (ws ! i) =
                (if i mod 2 = 0 then player_1 (args st) else player_2 (args st)) \<and>
              (\<exists>k<length (board_options st).
                 fst (randint (length (board_options st)) (st\<lparr>np_pos := np_pos st + i\<rparr>)) = Inr k \<and>
                 w_board_fpath (ws ! i) = Some (board_options st ! k)))"
proof -
  from autoplay_matches_built [OF assms] obtain ws where
    ws: "built st' = built st @ ws" "length ws = nat (autoplay_runs (args st))"
      "np_pos st' = np_pos st + nat (autoplay_runs (args st))"
      "\<forall>i<nat (autoplay_runs (args st)).
              board_options st \<noteq> [] \<and>
              w_player_1 (ws ! i) =
                (if i mod 2 = 0 then player_2 (args st) else player_1 (args st)) \<and>
              w_player_2 (ws ! i) =
                (if i mod 2 = 0 then player_1 (args st) else player_2 (args st)) \<and>
              w_board_fpath (ws ! i) =
                Some (board_options st !
                        (np_draws st (np_pos st + i) mod length (board_options st)))"
    by blast
  have "\<forall>i<nat (autoplay_runs (args st)).
              w_player_1 (ws ! i) =
                (if i mod 2 = 0 then player_2 (args st) else player_1 (args st)) \<and>
              w_player_2 (ws ! i) =
                (if i mod 2 = 0 then player_1 (args st) else player_2 (args st)) \<and>
              (\<exists>k<length (board_options st).
                 fst (randint (length (board_options st)) (st\<lparr>np_pos := np_pos st + i\<rparr>)) = Inr k \<and>
                 w_board_fpath (ws ! i) = Some (board_options st ! k))"
  proof (intro allI impI)
    fix i assume "i < nat (autoplay_runs (args st))"
    with ws(4) have
      ne: "board_options st \<noteq> []" and
      p1: "w_player_1 (ws ! i) =
                (if i mod 2 = 0 then player_2 (args st) else player_1 (args st))" and
      p2: "w_player_2 (ws ! i) =
                (if i mod 2 = 0 then player_1 (args st) else player_2 (args st))" and
      bd: "w_board_fpath (ws ! i) =
                Some (board_options st !
                        (np_draws st (np_pos st + i) mod length (board_options st)))"
      by blast+
    let ?k = "np_draws st (np_pos st + i) mod length (board_options st)"
    from ne have "?k < length (board_options st)" by simp
    moreover from ne
    have "fst (randint (length (board_options st)) (st\<lparr>np_pos := np_pos st + i\<rparr>)) = Inr ?k"
      by (simp add: randint_def)
    ultimately have "\<exists>k<length (board_options st).
                 fst (randint (length (board_options st)) (st\<lparr>np_pos := np_pos st + i\<rparr>)) = Inr k \<and>
                 w_board_fpath (ws ! i) = Some (board_options st ! k)"
      using bd by blast
    with p1 p2 show "w_player_1 (ws ! i) =
                (if i mod 2 = 0 then player_2 (args st) else player_1 (args st)) \<and>
              w_player_2 (ws ! i) =
                (if i mod 2 = 0 then player_1 (args st) else player_2 (args st)) \<and>
              (\<exists>k<length (board_options st).
                 fst (randint (length (board_options st)) (st\<lparr>np_pos := np_pos st + i\<rparr>)) = Inr k \<and>
                 w_board_fpath (ws ! i) = Some (board_options st ! k))"
      by blast
  qed
  with ws(1,2,3) show ?thesis
    by (intro exI [of _ ws]) simp
qed

lemma isEnabledFor_cong:
  "log_disable st' = log_disable st \<Longrightarrow> isEnabledFor lvl st' = isEnabledFor lvl st"
  by (simp add: isEnabledFor_def)

lemma isEnabledFor_logger_log [simp]:
  "isEnabledFor lvl (logger_log l m st) = isEnabledFor lvl st"
  by (simp add: isEnabledFor_def)

lemma summary_line_Inr:
  assumes "summary_line n a c ts st = (Inr u, st')"
  shows "\<exists>pct m. st' = logger_log INFO (WinPercentage n a pct m) st"
  using assms
  by (auto simp: summary_line_def split: sum.splits)

subsection \<open>The summary\<close>

text \<open>
  C5, as amended. Let the loop have run to its end, with a run count that is not zero and below
  \<open>2\<^sup>5\<^sup>2\<close>, and with timing lists that are non-empty and hold binary64 numbers (zero or normal,
  below \<open>2\<^sup>1\<^sup>0\<^sup>0\<^sup>0\<close>). Then \<^verbatim>\<open>autoplay\<close> returns normally and has handed exactly two lines
  to \<^verbatim>\<open>logger.info\<close>, for agent 1 and then agent 2, each with the agent's win count divided
  by the run count, as a float, and with \<^verbatim>\<open>np.round(m, 5)\<close> of the maximum \<open>m\<close> of the agent's
  timing list: \<open>m\<close> times \<open>10\<^sup>5\<close> as a float, rounded to the nearest integer, divided by
  \<open>10\<^sup>5\<close> as a float.
\<close>

theorem summary_lines:
  assumes m: "autoplay_matches E st = Some (Inr t, st3)"
    and runs: "autoplay_runs (args st) \<noteq> 0"
    and bound: "autoplay_runs (args st) < 2 ^ 52"
    and t1: "p1_times t \<noteq> []" and f1: "\<forall>x\<in>set (p1_times t). is_float64 x"
    and t2: "p2_times t \<noteq> []" and f2: "\<forall>x\<in>set (p2_times t). is_float64 x"
  shows "\<exists>st'. autoplay E st = Some (Inr (), st') \<and>
           log_out st' = log_out st3 @
             (if isEnabledFor INFO st
              then [(INFO, WinPercentage 1 (player_1 (args st))
                             (float64 (p1_win_count t / of_int (autoplay_runs (args st))))
                             (np_round (Max (set (p1_times t))) 5)),
                    (INFO, WinPercentage 2 (player_2 (args st))
                             (float64 (p2_win_count t / of_int (autoplay_runs (args st))))
                             (np_round (Max (set (p2_times t))) 5))]
              else [])"
proof -
  note fr = autoplay_matches_frame [OF m]
  let ?l1 = "WinPercentage 1 (player_1 (args st))
               (float64 (p1_win_count t / of_int (autoplay_runs (args st))))
               (np_round (Max (set (p1_times t))) 5)"
  let ?l2 = "WinPercentage 2 (player_2 (args st))
               (float64 (p2_win_count t / of_int (autoplay_runs (args st))))
               (np_round (Max (set (p2_times t))) 5)"
  let ?st4 = "logger_log INFO ?l1 st3"
  let ?st5 = "logger_log INFO ?l2 ?st4"
  from fr(1) runs have r3: "autoplay_runs (args st3) \<noteq> 0" by simp
  from summary_line_ok [OF r3 t1, of 1 "player_1 (args st3)" "p1_win_count t"] fr(1)
  have s1: "summary_line 1 (player_1 (args st3)) (p1_win_count t) (p1_times t) st3 = (Inr (), ?st4)"
    by simp
  from fr(1) runs have r4: "autoplay_runs (args ?st4) \<noteq> 0" by simp
  from summary_line_ok [OF r4 t2, of 2 "player_2 (args ?st4)" "p2_win_count t"] fr(1)
  have s2: "summary_line 2 (player_2 (args ?st4)) (p2_win_count t) (p2_times t) ?st4 = (Inr (), ?st5)"
    by simp
  from m s1 s2 have a: "autoplay E st = Some (Inr (), ?st5)"
    by (simp add: autoplay_def)
  have e3: "isEnabledFor INFO st3 = isEnabledFor INFO st"
    using fr(4) by (rule isEnabledFor_cong)
  have "log_out ?st5 = log_out st3 @
          (if isEnabledFor INFO st then [(INFO, ?l1), (INFO, ?l2)] else [])"
    by (simp add: logger_log_out e3)
  with a show ?thesis by blast
qed

subsection \<open>Logging around the loop\<close>

text \<open>
  C6. Whenever \<^verbatim>\<open>autoplay\<close> returns, normally or with an exception raised by a match or
  by the summary, \<^verbatim>\<open>logging.root.manager.disable\<close> is what it was before the call; no
  line of \<^verbatim>\<open>run\<close> was emitted in between; and after a normal return, with the
  informational level enabled beforehand, the output ends with the two summary lines.
\<close>

theorem logging_restored:
  assumes "autoplay E st = Some (r, st')"
  shows "log_disable st' = log_disable st \<and>
         (\<exists>extra. log_out st' = log_out st @ extra \<and>
                  (\<forall>x\<in>set extra. \<forall>a p b q. snd x \<noteq> RunFinished a p b q)) \<and>
         (r = Inr () \<and> isEnabledFor INFO st \<longrightarrow>
            (\<exists>pre pct1 m1 pct2 m2.
               log_out st' = log_out st @ pre @
                 [(INFO, WinPercentage 1 (player_1 (args st)) pct1 m1),
                  (INFO, WinPercentage 2 (player_2 (args st)) pct2 m2)]))"
  using assms
proof (cases rule: autoplay_cases)
  case (loop_failed e t)
  note fr = autoplay_matches_frame [OF loop_failed(1)]
  from fr(4,5) loop_failed(2) show ?thesis by simp
next
  case (first_failed t st3 e)
  note fr = autoplay_matches_frame [OF first_failed(1)]
  note f1 = summary_line_frame [OF first_failed(2)]
  from f1(8) fr(5) have "\<exists>extra. log_out st' = log_out st @ extra \<and>
                  (\<forall>x\<in>set extra. \<forall>a p b q. snd x \<noteq> RunFinished a p b q)"
    by auto
  with fr(4) f1(6) first_failed(3) show ?thesis by simp
next
  case (second_failed t st3 st4 e)
  note fr = autoplay_matches_frame [OF second_failed(1)]
  note f1 = summary_line_frame [OF second_failed(2)]
  note f2 = summary_line_frame [OF second_failed(3)]
  from f1(8) f2(8) fr(5) have "\<exists>extra. log_out st' = log_out st @ extra \<and>
                  (\<forall>x\<in>set extra. \<forall>a p b q. snd x \<noteq> RunFinished a p b q)"
    by auto
  with fr(4) f1(6) f2(6) second_failed(4) show ?thesis by simp
next
  case (completed t st3 st4)
  note fr = autoplay_matches_frame [OF completed(1)]
  note f1 = summary_line_frame [OF completed(2)]
  note f2 = summary_line_frame [OF completed(3)]
  from f1(8) f2(8) fr(5) have ex: "\<exists>extra. log_out st' = log_out st @ extra \<and>
                  (\<forall>x\<in>set extra. \<forall>a p b q. snd x \<noteq> RunFinished a p b q)"
    by auto
  have "\<exists>pre pct1 m1 pct2 m2.
               log_out st' = log_out st @ pre @
                 [(INFO, WinPercentage 1 (player_1 (args st)) pct1 m1),
                  (INFO, WinPercentage 2 (player_2 (args st)) pct2 m2)]"
    if en: "isEnabledFor INFO st"
  proof -
    from summary_line_Inr [OF completed(2)] obtain pct1 m1 where
      st4: "st4 = logger_log INFO (WinPercentage 1 (player_1 (args st3)) pct1 m1) st3"
      by blast
    from summary_line_Inr [OF completed(3)] obtain pct2 m2 where
      st': "st' = logger_log INFO (WinPercentage 2 (player_2 (args st4)) pct2 m2) st4"
      by blast
    from en fr(4) have e3: "isEnabledFor INFO st3" by (simp add: isEnabledFor_def)
    with st4 have e4: "isEnabledFor INFO st4" by (simp add: isEnabledFor_def)
    let ?pre = "if display (args st) \<and> isEnabledFor WARNING st
                then [(WARNING, DisplayDisabled)] else []"
    from st' st4 e3 e4 fr(1,5)
    have "log_out st' = log_out st @ ?pre @
                 [(INFO, WinPercentage 1 (player_1 (args st)) pct1 m1),
                  (INFO, WinPercentage 2 (player_2 (args st)) pct2 m2)]"
      by (simp add: logger_log_out)
    then show ?thesis by blast
  qed
  with ex fr(4) f1(6) f2(6) show ?thesis by simp
qed


lemma py_range_pos: "1 \<le> n \<Longrightarrow> py_range n = 0 # [Suc 0..<nat n]"
  by (simp add: py_range_def upt_rec)

subsection \<open>An empty roster\<close>

text \<open>
  C8. A roster directory that is not a directory makes the constructor return an empty roster
  without an error. With an empty roster and at least one run requested, \<^verbatim>\<open>autoplay\<close>
  fails with the \<^verbatim>\<open>ValueError\<close> of \<^verbatim>\<open>np.random.randint(0)\<close>: the loop stops in its
  first iteration with both win counts zero and both timing lists empty, no engine was built,
  and no random number was drawn.
\<close>

theorem empty_roster_fails_in_selection:
  assumes "board_options st = []" and "1 \<le> autoplay_runs (args st)"
  shows "(\<not> isdir fs d \<longrightarrow>
            (\<exists>s :: 'w state. Simulator_init fs (a\<lparr>board_roster_dir := Some (PyStr d)\<rparr>) p = Inr s \<and>
                             board_options s = [])) \<and>
         fst (randint (length (board_options st)) st) = Inl ValueError \<and>
         (\<exists>st'. autoplay E st = Some (Inl ValueError, st') \<and>
                autoplay_matches E st =
                  Some (Inl (ValueError,
                          \<lparr>p1_win_count = 0, p2_win_count = 0, p1_times = [], p2_times = []\<rparr>), st') \<and>
                built st' = built st \<and> np_pos st' = np_pos st \<and> world st' = world st)"
proof (intro conjI)
  show "\<not> isdir fs d \<longrightarrow>
            (\<exists>s :: 'w state. Simulator_init fs (a\<lparr>board_roster_dir := Some (PyStr d)\<rparr>) p = Inr s \<and>
                             board_options s = [])"
    by (simp add: Simulator_init_def)
  show "fst (randint (length (board_options st)) st) = Inl ValueError"
    using assms(1) by (simp add: randint_def)
  let ?st1 = "if display (args st) then logger_log WARNING DisplayDisabled st else st"
  let ?st2 = "?st1\<lparr>args := (args ?st1)\<lparr>display := False\<rparr>\<rparr>"
  let ?st' = "?st2\<lparr>log_disable := CRITICAL, log_disable := log_disable ?st2\<rparr>"
  have r: "py_range (autoplay_runs (args ?st2)) = 0 # [Suc 0..<nat (autoplay_runs (args st))]"
    using py_range_pos [OF assms(2)] by (cases "display (args st)") simp_all
  have e: "board_options (?st2\<lparr>log_disable := CRITICAL\<rparr>) = []"
    using assms(1) by (cases "display (args st)") simp_all
  have m: "autoplay_matches E st =
             Some (Inl (ValueError,
                     \<lparr>p1_win_count = 0, p2_win_count = 0, p1_times = [], p2_times = []\<rparr>), ?st')"
    unfolding autoplay_matches_def Let_def all_logging_disabled_def r
    by (simp add: autoplay_iteration_empty [OF e])
  then have "autoplay E st = Some (Inl ValueError, ?st')"
    by (simp add: autoplay_def)
  moreover have "built ?st' = built st \<and> np_pos ?st' = np_pos st \<and> world ?st' = world st"
    by (cases "display (args st)") simp_all
  ultimately show "\<exists>st'. autoplay E st = Some (Inl ValueError, st') \<and>
                autoplay_matches E st =
                  Some (Inl (ValueError,
                          \<lparr>p1_win_count = 0, p2_win_count = 0, p1_times = [], p2_times = []\<rparr>), st') \<and>
                built st' = built st \<and> np_pos st' = np_pos st \<and> world st' = world st"
    using m by blast
qed

subsection \<open>The configuration\<close>

text \<open>
  C10, as amended. The constructor stores the configuration as given; \<^verbatim>\<open>reset\<close> and
  \<^verbatim>\<open>run\<close> leave every field as it was; \<^verbatim>\<open>autoplay\<close> leaves every field as it was
  except \<^verbatim>\<open>display\<close>, which it sets to false.
\<close>

theorem configuration_frame:
  "(Simulator_init fs a p = Inr (s0 :: 'w state) \<longrightarrow> args s0 = a) \<and>
   args (snd (reset E sw b st)) = args st \<and>
   (run E sw b st = Some (r, st1) \<longrightarrow> args st1 = args st) \<and>
   (autoplay E st = Some (r', st2) \<longrightarrow> args st2 = (args st)\<lparr>display := False\<rparr>)"
proof (intro conjI impI)
  assume "Simulator_init fs a p = Inr s0"
  then show "args s0 = a"
    by (auto simp: Simulator_init_def Let_def
             split: option.splits if_splits py_value.splits sum.splits)
next
  show "args (snd (reset E sw b st)) = args st"
    using reset_frame(1) [of E sw b st "fst (reset E sw b st)" "snd (reset E sw b st)"]
    by simp
next
  assume "run E sw b st = Some (r, st1)"
  then show "args st1 = args st" by (rule run_frame(1))
next
  assume "autoplay E st = Some (r', st2)"
  then show "args st2 = (args st)\<lparr>display := False\<rparr>"
  proof (cases rule: autoplay_cases)
    case (loop_failed e t)
    from autoplay_matches_frame(1) [OF loop_failed(1)] show ?thesis .
  next
    case (first_failed t st3 e)
    from autoplay_matches_frame(1) [OF first_failed(1)] summary_line_frame(1) [OF first_failed(2)]
    show ?thesis by simp
  next
    case (second_failed t st3 st4 e)
    from autoplay_matches_frame(1) [OF second_failed(1)]
      summary_line_frame(1) [OF second_failed(2)] summary_line_frame(1) [OF second_failed(3)]
    show ?thesis by simp
  next
    case (completed t st3 st4)
    from autoplay_matches_frame(1) [OF completed(1)]
      summary_line_frame(1) [OF completed(2)] summary_line_frame(1) [OF completed(3)]
    show ?thesis by simp
  qed
qed


subsection \<open>The properties at the small engine\<close>

lemma demo_iteration_swapped:
  "\<exists>st'. autoplay_iteration demo_engine 0
            \<lparr>p1_win_count = 0, p2_win_count = 0, p1_times = [], p2_times = []\<rparr> demo_state
          = Some (Inr \<lparr>p1_win_count = 1, p2_win_count = 0,
                       p1_times = [1 / 10, 1 / 5, 1 / 20], p2_times = [1 / 1048576]\<rparr>, st')"
  by (simp add: demo_defs eval_defs)

lemma demo_matches:
  "\<exists>st3. autoplay_matches demo_engine demo_state
          = Some (Inr \<lparr>p1_win_count = 3, p2_win_count = 0,
                       p1_times = [1 / 10, 1 / 5, 1 / 20, 1 / 10, 1 / 5, 1 / 20, 1 / 10, 1 / 5, 1 / 20],
                       p2_times = [1 / 1048576, 1 / 1048576, 1 / 1048576]\<rparr>, st3) \<and>
         log_out st3 = [(WARNING, DisplayDisabled)]"
  by (simp add: demo_defs eval_defs)

lemma demo_autoplay_fails:
  "\<exists>st'. autoplay failing_engine demo_state = Some (Inl (EngineError ''boom''), st')"
  by (simp add: demo_defs eval_defs)

lemma demo_run_completes:
  "\<exists>r st'. run demo_engine False None demo_state = Some (r, st')"
  by (simp add: demo_defs eval_defs)

lemma roster_init_demo:
  "\<exists>s :: (nat \<times> world_args) state. Simulator_init demo_fs demo_args demo_proc = Inr s"
  by (simp add: Simulator_init_def demo_args_def demo_fs_def isdir_def listdir_def)

theorem swap_restores_logical_agents_witness:
  "\<exists>st' p0_score p1_score p0_t p1_t wa.
     autoplay_iteration demo_engine 0
         \<lparr>p1_win_count = 0, p2_win_count = 0, p1_times = [], p2_times = []\<rparr> demo_state
       = Some (Inr \<lparr>p1_win_count = 1, p2_win_count = 0,
                    p1_times = [1 / 10, 1 / 5, 1 / 20], p2_times = [1 / 1048576]\<rparr>, st') \<and>
     built st' = [wa] \<and> w_player_1 wa = ''b'' \<and> w_player_2 wa = ''a'' \<and>
     \<lparr>p1_win_count = 1, p2_win_count = 0,
      p1_times = [1 / 10, 1 / 5, 1 / 20], p2_times = [1 / 1048576]\<rparr>
       = aggregate \<lparr>p1_win_count = 0, p2_win_count = 0, p1_times = [], p2_times = []\<rparr>
           (p1_score, p0_score, p1_t, p0_t)"
proof -
  from demo_iteration_swapped obtain st' where
    it: "autoplay_iteration demo_engine 0
            \<lparr>p1_win_count = 0, p2_win_count = 0, p1_times = [], p2_times = []\<rparr> demo_state
          = Some (Inr \<lparr>p1_win_count = 1, p2_win_count = 0,
                       p1_times = [1 / 10, 1 / 5, 1 / 20], p2_times = [1 / 1048576]\<rparr>, st')" ..
  from swap_restores_logical_agents [OF it] obtain p0_score p1_score p0_t p1_t wa where
    "built st' = built demo_state @ [wa]"
    "w_player_1 wa = player_2 (args demo_state)" "w_player_2 wa = player_1 (args demo_state)"
    "\<lparr>p1_win_count = 1, p2_win_count = 0,
      p1_times = [1 / 10, 1 / 5, 1 / 20], p2_times = [1 / 1048576]\<rparr>
       = aggregate \<lparr>p1_win_count = 0, p2_win_count = 0, p1_times = [], p2_times = []\<rparr>
           (p1_score, p0_score, p1_t, p0_t)"
    by auto
  then have "built st' = [wa] \<and> w_player_1 wa = ''b'' \<and> w_player_2 wa = ''a'' \<and>
     \<lparr>p1_win_count = 1, p2_win_count = 0,
      p1_times = [1 / 10, 1 / 5, 1 / 20], p2_times = [1 / 1048576]\<rparr>
       = aggregate \<lparr>p1_win_count = 0, p2_win_count = 0, p1_times = [], p2_times = []\<rparr>
           (p1_score, p0_score, p1_t, p0_t)"
    by (simp add: demo_state_def demo_args_def)
  with it show ?thesis by blast
qed

theorem autoplay_iterations_witness:
  "\<exists>t st' ws. autoplay_matches demo_engine demo_state = Some (Inr t, st') \<and>
     built st' = ws \<and> length ws = 3 \<and>
     w_player_1 (ws ! 0) = ''b'' \<and> w_player_2 (ws ! 0) = ''a'' \<and>
     w_player_1 (ws ! 1) = ''a'' \<and> w_player_2 (ws ! 1) = ''b'' \<and>
     w_board_fpath (ws ! 1) = Some ''boards/b.board''"
proof -
  from demo_matches obtain t st' where
    a: "autoplay_matches demo_engine demo_state = Some (Inr t, st')" by blast
  from autoplay_iterations [OF a] obtain ws where
    ws: "built st' = built demo_state @ ws" "length ws = nat (autoplay_runs (args demo_state))"
    and each: "\<forall>i<nat (autoplay_runs (args demo_state)).
              w_player_1 (ws ! i) =
                (if i mod 2 = 0 then player_2 (args demo_state) else player_1 (args demo_state)) \<and>
              w_player_2 (ws ! i) =
                (if i mod 2 = 0 then player_1 (args demo_state) else player_2 (args demo_state)) \<and>
              (\<exists>k<length (board_options demo_state).
                 fst (randint (length (board_options demo_state))
                        (demo_state\<lparr>np_pos := np_pos demo_state + i\<rparr>)) = Inr k \<and>
                 w_board_fpath (ws ! i) = Some (board_options demo_state ! k))"
    by blast
  have n: "nat (autoplay_runs (args demo_state)) = 3"
    by (simp add: demo_state_def demo_args_def)
  from each n have "w_player_1 (ws ! 0) = ''b'' \<and> w_player_2 (ws ! 0) = ''a''"
    by (simp add: demo_state_def demo_args_def)
  moreover from each n have "w_player_1 (ws ! 1) = ''a'' \<and> w_player_2 (ws ! 1) = ''b'' \<and>
      w_board_fpath (ws ! 1) = Some ''boards/b.board''"
    by (auto simp: demo_state_def demo_args_def randint_def)
  moreover from ws n have "built st' = ws \<and> length ws = 3"
    by (simp add: demo_state_def)
  ultimately show ?thesis using a by blast
qed

lemma float_matches:
  "\<exists>st3. autoplay_matches float_engine demo_state
          = Some (Inr \<lparr>p1_win_count = 3, p2_win_count = 0,
                       p1_times = [3602879701896397 / 36028797018963968,
                                   3602879701896397 / 18014398509481984,
                                   3602879701896397 / 72057594037927936,
                                   3602879701896397 / 36028797018963968,
                                   3602879701896397 / 18014398509481984,
                                   3602879701896397 / 72057594037927936,
                                   3602879701896397 / 36028797018963968,
                                   3602879701896397 / 18014398509481984,
                                   3602879701896397 / 72057594037927936],
                       p2_times = [1 / 1048576, 1 / 1048576, 1 / 1048576]\<rparr>, st3) \<and>
         log_out st3 = [(WARNING, DisplayDisabled)]"
  by (simp add: demo_defs eval_defs)

text \<open>
  Agent \<open>b\<close> of the engine with float times takes \<open>2\<^sup>-\<^sup>2\<^sup>0\<close> seconds a turn; the summary
  reports a maximum of 0 for it.
\<close>

theorem summary_max_counterexample:
  "map_option (log_out \<circ> snd) (autoplay float_engine demo_state)
     = Some [(WARNING, DisplayDisabled),
             (INFO, WinPercentage 1 ''a'' 1 (3602879701896397 / 18014398509481984)),
             (INFO, WinPercentage 2 ''b'' 0 0)] \<and>
   map_option (map_sum fst p2_times \<circ> fst) (autoplay_matches float_engine demo_state)
     = Some (Inr [1 / 1048576, 1 / 1048576, 1 / 1048576]) \<and>
   Max (set [1 / 1048576, 1 / 1048576, 1 / 1048576 :: rat]) \<noteq> 0"
  by (simp add: demo_defs eval_defs)

theorem summary_lines_witness:
  "\<exists>st'. autoplay float_engine demo_state = Some (Inr (), st') \<and>
     log_out st' = [(WARNING, DisplayDisabled),
                    (INFO, WinPercentage 1 ''a'' 1 (float64 (1 / 5))),
                    (INFO, WinPercentage 2 ''b'' 0 0)]"
proof -
  let ?t = "\<lparr>p1_win_count = 3, p2_win_count = 0,
             p1_times = [3602879701896397 / 36028797018963968,
                         3602879701896397 / 18014398509481984,
                         3602879701896397 / 72057594037927936,
                         3602879701896397 / 36028797018963968,
                         3602879701896397 / 18014398509481984,
                         3602879701896397 / 72057594037927936,
                         3602879701896397 / 36028797018963968,
                         3602879701896397 / 18014398509481984,
                         3602879701896397 / 72057594037927936],
             p2_times = [1 / 1048576, 1 / 1048576, 1 / 1048576]\<rparr>"
  from float_matches obtain st3 where
    m: "autoplay_matches float_engine demo_state = Some (Inr ?t, st3)" and
    l: "log_out st3 = [(WARNING, DisplayDisabled)]"
    by blast
  have 1: "autoplay_runs (args demo_state) \<noteq> 0" by (simp add: demo_state_def demo_args_def)
  have 2: "autoplay_runs (args demo_state) < 2 ^ 52" by (simp add: demo_state_def demo_args_def)
  have 3: "p1_times ?t \<noteq> []" by simp
  have 4: "\<forall>x\<in>set (p1_times ?t). is_float64 x" by (simp add: is_float64_demo)
  have 5: "p2_times ?t \<noteq> []" by simp
  have 6: "\<forall>x\<in>set (p2_times ?t). is_float64 x" by (simp add: is_float64_demo)
  have en: "isEnabledFor INFO demo_state"
    by (simp add: isEnabledFor_def demo_state_def INFO_def effective_level_def)
  from summary_lines [OF m 1 2 3 4 5 6] l en show ?thesis
    by (simp add: demo_state_def demo_args_def np_round_small np_round_float_fifth
          float64_one float64_fifth)
qed

theorem logging_restored_witness:
  "(\<exists>st'. autoplay failing_engine demo_state = Some (Inl (EngineError ''boom''), st') \<and>
          log_disable st' = 0 \<and> log_out st' = [(WARNING, DisplayDisabled)]) \<and>
   (\<exists>st' pre pct1 m1 pct2 m2.
      autoplay demo_engine demo_state = Some (Inr (), st') \<and> log_disable st' = 0 \<and>
      log_out st' = pre @ [(INFO, WinPercentage 1 ''a'' pct1 m1), (INFO, WinPercentage 2 ''b'' pct2 m2)])"
proof
  from demo_autoplay_fails obtain st' where
    a: "autoplay failing_engine demo_state = Some (Inl (EngineError ''boom''), st')" ..
  have l: "log_out st' = [(WARNING, DisplayDisabled)]"
    using a by (simp add: demo_defs eval_defs) auto
  from logging_restored [OF a] l a
  show "\<exists>st'. autoplay failing_engine demo_state = Some (Inl (EngineError ''boom''), st') \<and>
          log_disable st' = 0 \<and> log_out st' = [(WARNING, DisplayDisabled)]"
    by (simp add: demo_state_def)
next
  from demo_autoplay_completes obtain st' where
    a: "autoplay demo_engine demo_state = Some (Inr (), st')" ..
  have en: "isEnabledFor INFO demo_state"
    by (simp add: isEnabledFor_def demo_state_def INFO_def effective_level_def)
  from logging_restored [OF a] en a
  show "\<exists>st' pre pct1 m1 pct2 m2.
      autoplay demo_engine demo_state = Some (Inr (), st') \<and> log_disable st' = 0 \<and>
      log_out st' = pre @ [(INFO, WinPercentage 1 ''a'' pct1 m1), (INFO, WinPercentage 2 ''b'' pct2 m2)]"
    by (simp add: demo_state_def demo_args_def)
qed

theorem empty_roster_fails_in_selection_witness:
  "(\<exists>s :: (nat \<times> world_args) state.
      Simulator_init demo_fs (demo_args\<lparr>board_roster_dir := Some (PyStr ''missing/'')\<rparr>) demo_proc
        = Inr s \<and> board_options s = []) \<and>
   (\<exists>st'. autoplay demo_engine (demo_state\<lparr>board_options := []\<rparr>) = Some (Inl ValueError, st') \<and>
          built st' = [] \<and> np_pos st' = 0)"
proof -
  have 1: "board_options (demo_state\<lparr>board_options := []\<rparr>) = []" by simp
  have 2: "1 \<le> autoplay_runs (args (demo_state\<lparr>board_options := []\<rparr>))"
    by (simp add: demo_state_def demo_args_def)
  have 3: "\<not> isdir demo_fs ''missing/''" by (simp add: isdir_def demo_fs_def)
  from empty_roster_fails_in_selection [OF 1 2, of demo_fs "''missing/''" demo_args demo_proc
      demo_engine, where ?'w = "nat \<times> world_args"] 3
  show ?thesis by (simp add: demo_state_def) blast
qed

text \<open>\<^verbatim>\<open>autoplay\<close> on a configuration with \<^verbatim>\<open>display\<close> set leaves it unset.\<close>

theorem configuration_immutable_counterexample:
  "display (args demo_state) \<and>
   map_option (display \<circ> args \<circ> snd) (autoplay demo_engine demo_state) = Some False"
  by (simp add: demo_defs eval_defs)

theorem configuration_frame_witness:
  "map_option (args \<circ> snd) (autoplay demo_engine demo_state) = Some (demo_args\<lparr>display := False\<rparr>) \<and>
   map_option (args \<circ> snd) (run demo_engine False None demo_state) = Some demo_args \<and>
   map_sum id args (Simulator_init demo_fs demo_args demo_proc :: py_error + (nat \<times> world_args) state)
     = Inr demo_args"
proof -
  from demo_autoplay_completes obtain st2 where
    a: "autoplay demo_engine demo_state = Some (Inr (), st2)" ..
  from demo_run_completes obtain r st1 where
    b: "run demo_engine False None demo_state = Some (r, st1)" by blast
  obtain s0 :: "(nat \<times> world_args) state" where
    c: "Simulator_init demo_fs demo_args demo_proc = Inr s0"
    using roster_init_demo by blast
  from configuration_frame [of demo_fs demo_args demo_proc s0 demo_engine False None demo_state
      r st1 "Inr ()" st2] a b c
  show ?thesis by (simp add: demo_state_def)
qed

end
